theory Spec2Isabelle
  imports Main
begin

section \<open>Documents of the three collections\<close>

text \<open>
  ObjectIds and dates are natural numbers. The \<open>connections\<close> collection is a list in
  insertion order, so that \<open>findOne\<close> returns the oldest matching document; the
  \<open>users\<close> collection is a map keyed by \<open>_id\<close>.
\<close>

type_synonym objectId = nat
type_synonym date = nat

text \<open>
  The message of a connection request is a JavaScript string: the list of its UTF-16
  code units (naturals below 65536), which is what \<open>length\<close> counts and what \<open>trim\<close> works on.
\<close>

type_synonym jsString = "nat list"

datatype status = Pending | Accepted | Rejected | Blocked
datatype connType = StudentTeacher | Peer | MentorMentee
datatype role = Student | Imaam | Admin
datatype priority = Low | Medium | High | Urgent

record connection =
  c_id :: objectId
  requester :: objectId
  recipient :: objectId
  status :: status
  ctype :: connType
  message :: "jsString option"
  acceptedAt :: "date option"
  lastInteraction :: date
  createdAt :: date

text \<open>
  A user document: the fields the connection code reads, and \<open>numberPaths\<close>, the
  number-valued paths stored in the document (what \<open>$inc\<close> acts on).
\<close>

record user =
  u_id :: objectId
  fullName :: string
  role :: role
  isVerified :: bool
  isActive :: bool
  numberPaths :: "string \<rightharpoonup> int"

datatype actionValue = AId objectId | AStr string

record notification =
  n_id :: objectId
  n_recipient :: objectId
  n_sender :: "objectId option"
  n_type :: string
  n_title :: string
  n_message :: string
  n_relatedEntity :: "objectId option"
  n_relatedEntityType :: "string option"
  n_isRead :: bool
  n_readAt :: "date option"
  n_priority :: priority
  n_actionData :: "(string \<times> actionValue) list"
  n_createdAt :: date

record state =
  users :: "objectId \<rightharpoonup> user"
  connections :: "connection list"
  notifications :: "notification list"
  nextId :: objectId

text \<open>
  What a handler passes to \<open>next\<close>, or what rejects its promise: an \<open>AppError\<close> with its
  status code, the plain \<open>Error\<close> of the connection pre-save hook, a validation error, the
  duplicate-key error of the unique index, the error of a \<open>save()\<close> whose document is no
  longer stored, and a failed write to the notification store.
\<close>

datatype error =
    AppError nat string
  | HookError nat string
  | ValidationError string
  | DuplicateKeyError
  | DocumentNotFoundError
  | StoreError

datatype jvalue =
    VBool bool
  | VNum int
  | VStr string
  | VConn connection
  | VList "jvalue list"
  | VObj "(string \<times> jvalue) list"

record response =
  code :: nat
  body :: jvalue

section \<open>models/User.js\<close>

text \<open>
  The paths \<open>userSchema\<close> declares (nested ones dotted), with \<open>_id\<close>, \<open>__v\<close> and the two
  timestamps. The schema's options are \<open>timestamps\<close>, \<open>toJSON\<close> and \<open>toObject\<close>: \<open>strict\<close> keeps
  its default, under which an update of a path the schema does not declare is dropped
  when the update is cast.
\<close>

definition userSchema_paths :: "string list" where
  "userSchema_paths =
    [''_id'', ''fullName'', ''email'', ''password'', ''role'', ''islamicProfile'', ''bio'',
     ''profilePicture'', ''isVerified'', ''isActive'', ''lastLogin'', ''specializations'',
     ''experience'', ''rating.average'', ''rating.count'', ''studentsCount'',
     ''socialLinks.website'', ''socialLinks.facebook'', ''socialLinks.twitter'',
     ''socialLinks.instagram'', ''socialLinks.youtube'', ''location.country'',
     ''location.city'', ''location.timezone'', ''preferences.language'',
     ''preferences.notifications.email'', ''preferences.notifications.push'',
     ''createdAt'', ''updatedAt'', ''__v'']"

definition userSchema_strict :: bool where
  "userSchema_strict = True"

definition castUpdate :: "bool \<Rightarrow> string \<Rightarrow> string option" where
  "castUpdate strict p =
    (if strict \<and> p \<notin> set userSchema_paths then None else Some p)"

definition inc_path :: "string \<Rightarrow> int \<Rightarrow> user \<Rightarrow> user" where
  "inc_path p d u =
    u\<lparr>numberPaths := (numberPaths u)(p \<mapsto> (case numberPaths u p of None \<Rightarrow> d | Some v \<Rightarrow> v + d))\<rparr>"

text \<open>\<open>User.findByIdAndUpdate(id, { $inc: { p: d } })\<close>\<close>

definition findByIdAndUpdate_inc ::
  "bool \<Rightarrow> (objectId \<rightharpoonup> user) \<Rightarrow> objectId \<Rightarrow> string \<Rightarrow> int \<Rightarrow> (objectId \<rightharpoonup> user)" where
  "findByIdAndUpdate_inc strict us uid p d =
    (case castUpdate strict p of
       None \<Rightarrow> us
     | Some q \<Rightarrow> (case us uid of None \<Rightarrow> us | Some u \<Rightarrow> us(uid \<mapsto> inc_path q d u)))"

definition connectionsCount :: "user \<Rightarrow> int option" where
  "connectionsCount u = numberPaths u ''connectionsCount''"

text \<open>\<open>User.findOne({ _id, role: 'imaam', isVerified: true, isActive: true })\<close>\<close>

definition findVerifiedImaamById :: "(objectId \<rightharpoonup> user) \<Rightarrow> objectId \<Rightarrow> user option" where
  "findVerifiedImaamById us i =
    (case us i of
       None \<Rightarrow> None
     | Some u \<Rightarrow> if role u = Imaam \<and> isVerified u \<and> isActive u then Some u else None)"

section \<open>models/Notification.js\<close>

record notificationData =
  d_recipient :: objectId
  d_sender :: "objectId option"
  d_type :: string
  d_title :: string
  d_message :: string
  d_relatedEntity :: "objectId option"
  d_relatedEntityType :: "string option"
  d_priority :: "priority option"
  d_actionData :: "(string \<times> actionValue) list"

definition notificationTypes :: "string list" where
  "notificationTypes =
    [''connection_request'', ''connection_accepted'', ''post_like'', ''post_comment'',
     ''comment_like'', ''new_follower'', ''lesson_reminder'', ''system_announcement'',
     ''message_received'']"

definition relatedEntityTypes :: "string list" where
  "relatedEntityTypes = [''post'', ''comment'', ''user'', ''connection'', ''lesson'']"

definition priorityMap :: "(string \<times> priority) list" where
  "priorityMap =
    [(''connection_request'', Medium), (''connection_accepted'', Medium),
     (''post_like'', Low), (''post_comment'', Medium), (''comment_like'', Low),
     (''new_follower'', Low), (''lesson_reminder'', High),
     (''system_announcement'', High), (''message_received'', High)]"

text \<open>
  The pre-save hook of a new notification: \<open>p\<close> is the document's priority (\<open>None\<close> when
  falsy), \<open>t\<close> its type.
\<close>

definition notification_pre_save :: "priority option \<Rightarrow> string \<Rightarrow> priority" where
  "notification_pre_save p t =
    (if p = None \<or> p = Some Medium
     then (case map_of priorityMap t of None \<Rightarrow> Medium | Some q \<Rightarrow> q)
     else (case p of None \<Rightarrow> Medium | Some q \<Rightarrow> q))"

definition notification_validate :: "notificationData \<Rightarrow> error option" where
  "notification_validate d =
    (if d_type d \<notin> set notificationTypes
       then Some (ValidationError ''Notification type is required'')
     else if d_title d = [] then Some (ValidationError ''Notification title is required'')
     else if length (d_title d) > 100 then Some (ValidationError ''Title cannot exceed 100 characters'')
     else if d_message d = [] then Some (ValidationError ''Notification message is required'')
     else if length (d_message d) > 300 then Some (ValidationError ''Message cannot exceed 300 characters'')
     else (case d_relatedEntityType d of
             None \<Rightarrow> None
           | Some t \<Rightarrow> if t \<in> set relatedEntityTypes then None
                       else Some (ValidationError ''relatedEntityType'')))"

text \<open>
  \<open>Notification.createNotification(data)\<close>: the document is built with
  \<open>priority: data.priority || 'medium'\<close>, validated, passed through the pre-save hook and
  written. \<open>ok\<close> says whether the store accepts the write.
\<close>

definition createNotification ::
  "state \<Rightarrow> date \<Rightarrow> bool \<Rightarrow> notificationData \<Rightarrow> error + (state \<times> notification)" where
  "createNotification s now ok d =
    (let p = (case d_priority d of None \<Rightarrow> Medium | Some q \<Rightarrow> q) in
     case notification_validate d of
       Some e \<Rightarrow> Inl e
     | None \<Rightarrow>
         if \<not> ok then Inl StoreError
         else
           (let n = \<lparr>n_id = nextId s, n_recipient = d_recipient d, n_sender = d_sender d,
                     n_type = d_type d, n_title = d_title d, n_message = d_message d,
                     n_relatedEntity = d_relatedEntity d,
                     n_relatedEntityType = d_relatedEntityType d,
                     n_isRead = False, n_readAt = None,
                     n_priority = notification_pre_save (Some p) (d_type d),
                     n_actionData = d_actionData d, n_createdAt = now\<rparr>
            in Inr (s\<lparr>notifications := notifications s @ [n], nextId := nextId s + 1\<rparr>, n)))"

section \<open>models/Connection.js\<close>

text \<open>
  \<open>trim: true\<close> applies \<open>String.prototype.trim\<close>, which strips the white space and the line
  terminators of ECMAScript from both ends: TAB, LF, VT, FF, CR, SPACE, U+00A0, U+1680,
  U+2000 to U+200A, U+2028, U+2029, U+202F, U+205F, U+3000 and U+FEFF.
\<close>

definition is_ws :: "nat \<Rightarrow> bool" where
  "is_ws c =
    (c \<in> set [0x09, 0x0A, 0x0B, 0x0C, 0x0D, 0x20, 0xA0, 0x1680, 0x2028, 0x2029, 0x202F,
              0x205F, 0x3000, 0xFEFF] \<or>
     (0x2000 \<le> c \<and> c \<le> 0x200A))"

definition trim_str :: "jsString \<Rightarrow> jsString" where
  "trim_str m = rev (dropWhile is_ws (rev (dropWhile is_ws m)))"

definition connection_validate :: "connection \<Rightarrow> error option" where
  "connection_validate c =
    (case message c of
       None \<Rightarrow> None
     | Some m \<Rightarrow> if length m > 200
                 then Some (ValidationError ''Message cannot exceed 200 characters'')
                 else None)"

definition connection_pre_save :: "connection \<Rightarrow> error option" where
  "connection_pre_save c =
    (if requester c = recipient c then Some (HookError 400 ''Cannot connect to yourself'')
     else None)"

definition connection_post_save ::
  "bool \<Rightarrow> connection \<Rightarrow> (objectId \<rightharpoonup> user) \<Rightarrow> (objectId \<rightharpoonup> user)" where
  "connection_post_save isNew c us =
    (if isNew \<and> status c = Accepted
     then findByIdAndUpdate_inc userSchema_strict
            (findByIdAndUpdate_inc userSchema_strict us (requester c) ''connectionsCount'' 1)
            (recipient c) ''connectionsCount'' 1
     else us)"

definition samePair :: "objectId \<Rightarrow> objectId \<Rightarrow> connection \<Rightarrow> bool" where
  "samePair u1 u2 c =
    ((requester c = u1 \<and> recipient c = u2) \<or> (requester c = u2 \<and> recipient c = u1))"

definition getConnection :: "connection list \<Rightarrow> objectId \<Rightarrow> objectId \<Rightarrow> connection option" where
  "getConnection cs u1 u2 = find (samePair u1 u2) cs"

definition areConnected :: "connection list \<Rightarrow> objectId \<Rightarrow> objectId \<Rightarrow> connection option" where
  "areConnected cs u1 u2 = find (\<lambda>c. samePair u1 u2 c \<and> status c = Accepted) cs"

text \<open>
  \<open>Connection.create(doc)\<close>: the message is trimmed by its setter, the document is
  validated, the pre-save hook runs, and the insert is refused by the unique index on
  \<open>(requester, recipient)\<close> when a document with the same ordered pair is stored.
\<close>

definition Connection_create ::
  "state \<Rightarrow> date \<Rightarrow> objectId \<Rightarrow> objectId \<Rightarrow> connType \<Rightarrow> jsString option \<Rightarrow> status
     \<Rightarrow> error + (state \<times> connection)" where
  "Connection_create s now req rcp ty msg st =
    (let c = \<lparr>c_id = nextId s, requester = req, recipient = rcp, status = st, ctype = ty,
              message = map_option trim_str msg, acceptedAt = None,
              lastInteraction = now, createdAt = now\<rparr>
     in case connection_validate c of
          Some e \<Rightarrow> Inl e
        | None \<Rightarrow>
           (case connection_pre_save c of
              Some e \<Rightarrow> Inl e
            | None \<Rightarrow>
               if find (\<lambda>d. requester d = req \<and> recipient d = rcp) (connections s) \<noteq> None
               then Inl DuplicateKeyError
               else Inr (s\<lparr>connections := connections s @ [c], nextId := nextId s + 1,
                           users := connection_post_save True c (users s)\<rparr>, c)))"

text \<open>\<open>save()\<close> of a stored document: the pre-save hook, then the document replaces the
  stored one of the same \<open>_id\<close>.\<close>

definition Connection_save :: "state \<Rightarrow> connection \<Rightarrow> error + state" where
  "Connection_save s c =
    (case connection_pre_save c of
       Some e \<Rightarrow> Inl e
     | None \<Rightarrow>
        Inr (s\<lparr>connections := map (\<lambda>d. if c_id d = c_id c then c else d) (connections s),
               users := connection_post_save False c (users s)\<rparr>))"

definition accept :: "state \<Rightarrow> date \<Rightarrow> connection \<Rightarrow> error + (state \<times> connection)" where
  "accept s now c =
    (let c' = c\<lparr>status := Accepted, acceptedAt := Some now, lastInteraction := now\<rparr>
     in case Connection_save s c' of Inl e \<Rightarrow> Inl e | Inr s' \<Rightarrow> Inr (s', c'))"

definition reject :: "state \<Rightarrow> date \<Rightarrow> connection \<Rightarrow> error + (state \<times> connection)" where
  "reject s now c =
    (let c' = c\<lparr>status := Rejected, lastInteraction := now\<rparr>
     in case Connection_save s c' of Inl e \<Rightarrow> Inl e | Inr s' \<Rightarrow> Inr (s', c'))"

definition block :: "state \<Rightarrow> date \<Rightarrow> connection \<Rightarrow> error + (state \<times> connection)" where
  "block s now c =
    (let c' = c\<lparr>status := Blocked, lastInteraction := now\<rparr>
     in case Connection_save s c' of Inl e \<Rightarrow> Inl e | Inr s' \<Rightarrow> Inr (s', c'))"

text \<open>\<open>getPendingConnections\<close>: newest first, then \<open>skip\<close> and \<open>limit\<close>.\<close>

definition getPendingConnections ::
  "connection list \<Rightarrow> objectId \<Rightarrow> nat \<Rightarrow> nat \<Rightarrow> connection list" where
  "getPendingConnections cs uid page limit =
    take limit (drop ((page - 1) * limit)
      (rev (sort_key createdAt (filter (\<lambda>c. recipient c = uid \<and> status c = Pending) cs))))"

section \<open>controllers/imaamController.js\<close>

text \<open>
  A handler takes the state, the clock, the authenticated user \<open>req.user\<close> and its
  parameters, and returns the state it leaves with either the error it passes on or the
  response it sends. Nothing undoes a write that was made before an error.
\<close>

definition okBody :: "string \<Rightarrow> jvalue option \<Rightarrow> jvalue" where
  "okBody msg d =
    VObj ([(''success'', VBool True), (''message'', VStr msg)] @
          (case d of None \<Rightarrow> [] | Some v \<Rightarrow> [(''data'', v)]))"

text \<open>The check on the document found for the pair: only \<open>accepted\<close> and \<open>pending\<close> stop
  the request.\<close>

definition existingConnectionError :: "string \<Rightarrow> connection option \<Rightarrow> error option" where
  "existingConnectionError acceptedMsg ex =
    (case ex of
       None \<Rightarrow> None
     | Some e \<Rightarrow>
        if status e = Accepted then Some (AppError 400 acceptedMsg)
        else if status e = Pending then Some (AppError 400 ''Connection request already pending'')
        else None)"

text \<open>The two objects the handlers pass to \<open>Notification.createNotification\<close>.\<close>

definition connectionRequestData :: "user \<Rightarrow> objectId \<Rightarrow> connection \<Rightarrow> notificationData" where
  "connectionRequestData reqUser imaamId conn =
    \<lparr>d_recipient = imaamId, d_sender = Some (u_id reqUser),
     d_type = ''connection_request'',
     d_title = ''New Connection Request'',
     d_message = fullName reqUser @ '' wants to connect with you'',
     d_relatedEntity = Some (c_id conn),
     d_relatedEntityType = Some ''connection'',
     d_priority = None,
     d_actionData = [(''connectionId'', AId (c_id conn)),
                     (''requesterName'', AStr (fullName reqUser))]\<rparr>"

definition connectionAcceptedData :: "user \<Rightarrow> connection \<Rightarrow> notificationData" where
  "connectionAcceptedData reqUser conn =
    \<lparr>d_recipient = requester conn, d_sender = Some (recipient conn),
     d_type = ''connection_accepted'',
     d_title = ''Connection Accepted'',
     d_message = fullName reqUser @ '' accepted your connection request'',
     d_relatedEntity = Some (c_id conn),
     d_relatedEntityType = Some ''connection'',
     d_priority = None,
     d_actionData = [(''connectionId'', AId (c_id conn)),
                     (''imaamName'', AStr (fullName reqUser))]\<rparr>"

definition requestConnection ::
  "state \<Rightarrow> date \<Rightarrow> bool \<Rightarrow> user \<Rightarrow> objectId \<Rightarrow> jsString option
     \<Rightarrow> state \<times> (error + response)" where
  "requestConnection s now ok reqUser imaamId msg =
    (let studentId = u_id reqUser in
     if imaamId = studentId then (s, Inl (AppError 400 ''Cannot connect to yourself''))
     else
      (case findVerifiedImaamById (users s) imaamId of
         None \<Rightarrow> (s, Inl (AppError 404 ''Imaam not found or not verified''))
       | Some imaam \<Rightarrow>
          (case existingConnectionError ''Already connected to this Imaam''
                  (getConnection (connections s) studentId imaamId) of
             Some e \<Rightarrow> (s, Inl e)
           | None \<Rightarrow>
              (case Connection_create s now studentId imaamId StudentTeacher
                      (Some (case msg of None \<Rightarrow> [] | Some m \<Rightarrow> m)) Pending of
                 Inl e \<Rightarrow> (s, Inl e)
               | Inr (s1, conn) \<Rightarrow>
                  (case createNotification s1 now ok
                          (connectionRequestData reqUser imaamId conn) of
                     Inl e \<Rightarrow> (s1, Inl e)
                   | Inr (s2, n) \<Rightarrow>
                      (s2, Inr \<lparr>code = 201,
                                body = okBody ''Connection request sent successfully''
                                         (Some (VConn conn))\<rparr>))))))"

text \<open>\<open>parseInt(req.query.page) || 1\<close>: an absent, unparsable or zero parameter gives the
  default.\<close>

definition queryNumber :: "nat option \<Rightarrow> nat \<Rightarrow> nat" where
  "queryNumber q dflt = (case q of None \<Rightarrow> dflt | Some v \<Rightarrow> if v = 0 then dflt else v)"

definition getConnectionRequests :: "state \<Rightarrow> user \<Rightarrow> nat option \<Rightarrow> nat option \<Rightarrow> response" where
  "getConnectionRequests s reqUser qpage qlimit =
    (let page = queryNumber qpage 1;
         limit = queryNumber qlimit 10;
         requests = getPendingConnections (connections s) (u_id reqUser) page limit
     in \<lparr>code = 200,
         body = VObj [(''success'', VBool True), (''data'', VList (map VConn requests))]\<rparr>)"

text \<open>
  The body \<open>getImaamList\<close> sends, given the page of documents \<open>imaam\<close> and the count
  \<open>totalCount\<close> its two queries returned. \<open>Math.ceil(total / limit)\<close> is taken on naturals;
  \<open>limit\<close> is never zero.
\<close>

definition getImaamList_body :: "jvalue list \<Rightarrow> nat \<Rightarrow> nat option \<Rightarrow> nat option \<Rightarrow> jvalue" where
  "getImaamList_body imaam totalCount qpage qlimit =
    (let page = queryNumber qpage 1;
         limit = queryNumber qlimit 10;
         totalPages = (totalCount + limit - 1) div limit
     in VObj [(''success'', VBool True),
              (''data'', VObj [(''imaam'', VList imaam),
                 (''pagination'',
                    VObj [(''currentPage'', VNum (int page)),
                          (''totalPages'', VNum (int totalPages)),
                          (''totalItems'', VNum (int totalCount)),
                          (''hasNext'', VBool (page < totalPages)),
                          (''hasPrev'', VBool (page > 1))])])])"

text \<open>\<open>Connection.findOne({ _id: connectionId, recipient: req.user._id, status: 'pending' })\<close>\<close>

definition findPendingFor :: "connection list \<Rightarrow> objectId \<Rightarrow> objectId \<Rightarrow> connection option" where
  "findPendingFor cs connectionId uid =
    find (\<lambda>c. c_id c = connectionId \<and> recipient c = uid \<and> status c = Pending) cs"

definition acceptConnection ::
  "state \<Rightarrow> date \<Rightarrow> bool \<Rightarrow> user \<Rightarrow> objectId \<Rightarrow> state \<times> (error + response)" where
  "acceptConnection s now ok reqUser connectionId =
    (case findPendingFor (connections s) connectionId (u_id reqUser) of
       None \<Rightarrow> (s, Inl (AppError 404 ''Connection request not found''))
     | Some c \<Rightarrow>
        (case accept s now c of
           Inl e \<Rightarrow> (s, Inl e)
         | Inr (s1, conn) \<Rightarrow>
            (let us1 = findByIdAndUpdate_inc userSchema_strict (users s1)
                         (requester conn) ''connectionsCount'' 1;
                 us2 = findByIdAndUpdate_inc userSchema_strict us1
                         (recipient conn) ''connectionsCount'' 1;
                 s2 = s1\<lparr>users := us2\<rparr>
             in case createNotification s2 now ok (connectionAcceptedData reqUser conn) of
                  Inl e \<Rightarrow> (s2, Inl e)
                | Inr (s3, n) \<Rightarrow>
                   (s3, Inr \<lparr>code = 200,
                             body = okBody ''Connection request accepted successfully''
                                      (Some (VConn conn))\<rparr>))))"

definition rejectConnection ::
  "state \<Rightarrow> date \<Rightarrow> user \<Rightarrow> objectId \<Rightarrow> state \<times> (error + response)" where
  "rejectConnection s now reqUser connectionId =
    (case findPendingFor (connections s) connectionId (u_id reqUser) of
       None \<Rightarrow> (s, Inl (AppError 404 ''Connection request not found''))
     | Some c \<Rightarrow>
        (case reject s now c of
           Inl e \<Rightarrow> (s, Inl e)
         | Inr (s1, conn) \<Rightarrow>
            (s1, Inr \<lparr>code = 200,
                      body = okBody ''Connection request rejected successfully'' None\<rparr>)))"

section \<open>controllers/userController.js\<close>

definition followUser ::
  "state \<Rightarrow> date \<Rightarrow> user \<Rightarrow> objectId \<Rightarrow> state \<times> (error + response)" where
  "followUser s now reqUser targetUserId =
    (let currentUserId = u_id reqUser in
     if targetUserId = currentUserId then (s, Inl (AppError 400 ''Cannot follow yourself''))
     else
      (case users s targetUserId of
         None \<Rightarrow> (s, Inl (AppError 404 ''User not found''))
       | Some targetUser \<Rightarrow>
          if \<not> isActive targetUser then (s, Inl (AppError 404 ''User not found''))
          else
           (case existingConnectionError ''Already following this user''
                   (find (samePair currentUserId targetUserId) (connections s)) of
              Some e \<Rightarrow> (s, Inl e)
            | None \<Rightarrow>
               (case Connection_create s now currentUserId targetUserId Peer None Pending of
                  Inl e \<Rightarrow> (s, Inl e)
                | Inr (s1, conn) \<Rightarrow>
                   (s1, Inr \<lparr>code = 200,
                             body = okBody ''Follow request sent successfully''
                                      (Some (VConn conn))\<rparr>)))))"

text \<open>\<open>findOneAndDelete\<close> removes the first matching document and returns it.\<close>

definition findOneAndDelete ::
  "(connection \<Rightarrow> bool) \<Rightarrow> connection list \<Rightarrow> connection option \<times> connection list" where
  "findOneAndDelete P cs =
    (case find P cs of None \<Rightarrow> (None, cs) | Some c \<Rightarrow> (Some c, remove1 c cs))"

definition unfollowUser :: "state \<Rightarrow> user \<Rightarrow> objectId \<Rightarrow> state \<times> (error + response)" where
  "unfollowUser s reqUser targetUserId =
    (let currentUserId = u_id reqUser in
     case findOneAndDelete (\<lambda>c. samePair currentUserId targetUserId c \<and> status c = Accepted)
            (connections s) of
       (None, cs') \<Rightarrow> (s, Inl (AppError 404 ''Not following this user''))
     | (Some c, cs') \<Rightarrow>
        (let us1 = findByIdAndUpdate_inc userSchema_strict (users s)
                     currentUserId ''connectionsCount'' (- 1);
             us2 = findByIdAndUpdate_inc userSchema_strict us1
                     targetUserId ''connectionsCount'' (- 1)
         in (s\<lparr>connections := cs', users := us2\<rparr>,
             Inr \<lparr>code = 200, body = okBody ''Unfollowed successfully'' None\<rparr>)))"

section \<open>routes/imaam.js and routes/users.js\<close>

text \<open>
  Modelled from the spec: \<open>middleware/auth.js\<close> (\<open>protect\<close>, \<open>authorize\<close>) is not among the
  sources. The routes put \<open>protect, authorize('imaam')\<close> in front of the accept, the reject
  and the pending list, and \<open>protect\<close> alone in front of the other handlers; the spec's
  interface table asks for an authenticated user there and answers 403 to a wrong role.
  Requests are taken as authenticated: \<open>req.user\<close> is the user who calls.
\<close>

definition authorize :: "role list \<Rightarrow> user \<Rightarrow> error option" where
  "authorize roles reqUser =
    (if role reqUser \<in> set roles then None else Some (AppError 403 ''Forbidden''))"

section \<open>Requests handled one at a time\<close>

datatype request =
    ReqRequestConnection date bool user objectId "jsString option"
  | ReqFollowUser date user objectId
  | ReqAcceptConnection date bool user objectId
  | ReqRejectConnection date user objectId
  | ReqUnfollowUser user objectId

text \<open>A request that goes through its route and its handler with no other request in
  between.\<close>

fun handle :: "state \<Rightarrow> request \<Rightarrow> state \<times> (error + response)" where
  "handle s (ReqRequestConnection now ok u i m) = requestConnection s now ok u i m"
| "handle s (ReqFollowUser now u t) = followUser s now u t"
| "handle s (ReqAcceptConnection now ok u cid) =
     (case authorize [Imaam] u of
        Some e \<Rightarrow> (s, Inl e)
      | None \<Rightarrow> acceptConnection s now ok u cid)"
| "handle s (ReqRejectConnection now u cid) =
     (case authorize [Imaam] u of
        Some e \<Rightarrow> (s, Inl e)
      | None \<Rightarrow> rejectConnection s now u cid)"
| "handle s (ReqUnfollowUser u t) = unfollowUser s u t"

definition step :: "state \<Rightarrow> request \<Rightarrow> state" where
  "step s r = fst (handle s r)"

definition run :: "state \<Rightarrow> request list \<Rightarrow> state" where
  "run s rs = foldl step s rs"

section \<open>Requests handled concurrently\<close>

text \<open>
  A handler awaits every access to the store, so other requests can run between its
  lookup of the connection and its write. A request is therefore split in two: the
  lookups, which leave the write the handler goes on to make, and that write, made
  later on whatever the store then holds. \<open>unfollowUser\<close> has no such gap: its
  \<open>findOneAndDelete\<close> is one operation of the store. The writes a handler makes after the
  one to the connections (the two counters, the notification) touch other collections
  only and are kept together with it.
\<close>

datatype pendingWrite =
    WRequestConnection date bool user objectId "jsString option"
  | WFollowUser date user objectId
  | WAcceptConnection date bool user connection
  | WRejectConnection date connection
  | WUnfollowUser user objectId

text \<open>The lookups of \<open>requestConnection\<close> and \<open>followUser\<close>, up to the check of the
  document found for the pair.\<close>

definition requestConnection_lookup :: "state \<Rightarrow> user \<Rightarrow> objectId \<Rightarrow> error option" where
  "requestConnection_lookup s reqUser imaamId =
    (if imaamId = u_id reqUser then Some (AppError 400 ''Cannot connect to yourself'')
     else
      (case findVerifiedImaamById (users s) imaamId of
         None \<Rightarrow> Some (AppError 404 ''Imaam not found or not verified'')
       | Some imaam \<Rightarrow>
          existingConnectionError ''Already connected to this Imaam''
            (getConnection (connections s) (u_id reqUser) imaamId)))"

definition followUser_lookup :: "state \<Rightarrow> user \<Rightarrow> objectId \<Rightarrow> error option" where
  "followUser_lookup s reqUser targetUserId =
    (if targetUserId = u_id reqUser then Some (AppError 400 ''Cannot follow yourself'')
     else
      (case users s targetUserId of
         None \<Rightarrow> Some (AppError 404 ''User not found'')
       | Some targetUser \<Rightarrow>
          if \<not> isActive targetUser then Some (AppError 404 ''User not found'')
          else existingConnectionError ''Already following this user''
                 (find (samePair (u_id reqUser) targetUserId) (connections s))))"

fun lookupPhase :: "state \<Rightarrow> request \<Rightarrow> error + pendingWrite" where
  "lookupPhase s (ReqRequestConnection now ok u i m) =
     (case requestConnection_lookup s u i of
        Some e \<Rightarrow> Inl e
      | None \<Rightarrow> Inr (WRequestConnection now ok u i m))"
| "lookupPhase s (ReqFollowUser now u t) =
     (case followUser_lookup s u t of
        Some e \<Rightarrow> Inl e
      | None \<Rightarrow> Inr (WFollowUser now u t))"
| "lookupPhase s (ReqAcceptConnection now ok u cid) =
     (case authorize [Imaam] u of
        Some e \<Rightarrow> Inl e
      | None \<Rightarrow>
         (case findPendingFor (connections s) cid (u_id u) of
            None \<Rightarrow> Inl (AppError 404 ''Connection request not found'')
          | Some c \<Rightarrow> Inr (WAcceptConnection now ok u c)))"
| "lookupPhase s (ReqRejectConnection now u cid) =
     (case authorize [Imaam] u of
        Some e \<Rightarrow> Inl e
      | None \<Rightarrow>
         (case findPendingFor (connections s) cid (u_id u) of
            None \<Rightarrow> Inl (AppError 404 ''Connection request not found'')
          | Some c \<Rightarrow> Inr (WRejectConnection now c)))"
| "lookupPhase s (ReqUnfollowUser u t) = Inr (WUnfollowUser u t)"

text \<open>The rest of \<open>requestConnection\<close> and of \<open>followUser\<close>, from \<open>Connection.create\<close> on.\<close>

definition requestConnection_write ::
  "state \<Rightarrow> date \<Rightarrow> bool \<Rightarrow> user \<Rightarrow> objectId \<Rightarrow> jsString option
     \<Rightarrow> state \<times> (error + response)" where
  "requestConnection_write s now ok reqUser imaamId msg =
    (case Connection_create s now (u_id reqUser) imaamId StudentTeacher
            (Some (case msg of None \<Rightarrow> [] | Some m \<Rightarrow> m)) Pending of
       Inl e \<Rightarrow> (s, Inl e)
     | Inr (s1, conn) \<Rightarrow>
        (case createNotification s1 now ok (connectionRequestData reqUser imaamId conn) of
           Inl e \<Rightarrow> (s1, Inl e)
         | Inr (s2, n) \<Rightarrow>
            (s2, Inr \<lparr>code = 201,
                      body = okBody ''Connection request sent successfully''
                               (Some (VConn conn))\<rparr>)))"

definition followUser_write ::
  "state \<Rightarrow> date \<Rightarrow> user \<Rightarrow> objectId \<Rightarrow> state \<times> (error + response)" where
  "followUser_write s now reqUser targetUserId =
    (case Connection_create s now (u_id reqUser) targetUserId Peer None Pending of
       Inl e \<Rightarrow> (s, Inl e)
     | Inr (s1, conn) \<Rightarrow>
        (s1, Inr \<lparr>code = 200,
                  body = okBody ''Follow request sent successfully'' (Some (VConn conn))\<rparr>))"

text \<open>
  \<open>save()\<close> of a document \<open>c\<close> that was read earlier and then changed by \<open>accept\<close> or
  \<open>reject\<close>: after the pre-save hook, the changed paths (\<open>status\<close>, \<open>lastInteraction\<close>, and
  \<open>acceptedAt\<close> for an accept) are written to the stored document of the same \<open>_id\<close>; the
  other paths of the stored document stay. When no document of that \<open>_id\<close> is stored any
  more, nothing is written and the save fails.
\<close>

definition save_paths :: "state \<Rightarrow> connection \<Rightarrow> bool \<Rightarrow> error + state" where
  "save_paths s c withAcceptedAt =
    (case connection_pre_save c of
       Some e \<Rightarrow> Inl e
     | None \<Rightarrow>
        if find (\<lambda>d. c_id d = c_id c) (connections s) = None then Inl DocumentNotFoundError
        else
          Inr (s\<lparr>connections :=
                   map (\<lambda>d. if c_id d = c_id c
                            then d\<lparr>status := status c,
                                   acceptedAt := (if withAcceptedAt then acceptedAt c
                                                  else acceptedAt d),
                                   lastInteraction := lastInteraction c\<rparr>
                            else d)
                       (connections s),
                 users := connection_post_save False c (users s)\<rparr>))"

text \<open>The rest of \<open>acceptConnection\<close> and of \<open>rejectConnection\<close>, from \<open>connection.accept()\<close>
  and \<open>connection.reject()\<close> on; \<open>c\<close> is the document the lookup found.\<close>

definition acceptConnection_write ::
  "state \<Rightarrow> date \<Rightarrow> bool \<Rightarrow> user \<Rightarrow> connection \<Rightarrow> state \<times> (error + response)" where
  "acceptConnection_write s now ok reqUser c =
    (let conn = c\<lparr>status := Accepted, acceptedAt := Some now, lastInteraction := now\<rparr>
     in case save_paths s conn True of
          Inl e \<Rightarrow> (s, Inl e)
        | Inr s1 \<Rightarrow>
           (let us1 = findByIdAndUpdate_inc userSchema_strict (users s1)
                        (requester conn) ''connectionsCount'' 1;
                us2 = findByIdAndUpdate_inc userSchema_strict us1
                        (recipient conn) ''connectionsCount'' 1;
                s2 = s1\<lparr>users := us2\<rparr>
            in case createNotification s2 now ok (connectionAcceptedData reqUser conn) of
                 Inl e \<Rightarrow> (s2, Inl e)
               | Inr (s3, n) \<Rightarrow>
                  (s3, Inr \<lparr>code = 200,
                            body = okBody ''Connection request accepted successfully''
                                     (Some (VConn conn))\<rparr>)))"

definition rejectConnection_write ::
  "state \<Rightarrow> date \<Rightarrow> connection \<Rightarrow> state \<times> (error + response)" where
  "rejectConnection_write s now c =
    (let conn = c\<lparr>status := Rejected, lastInteraction := now\<rparr>
     in case save_paths s conn False of
          Inl e \<Rightarrow> (s, Inl e)
        | Inr s1 \<Rightarrow>
           (s1, Inr \<lparr>code = 200,
                     body = okBody ''Connection request rejected successfully'' None\<rparr>))"

fun writePhase :: "state \<Rightarrow> pendingWrite \<Rightarrow> state \<times> (error + response)" where
  "writePhase s (WRequestConnection now ok u i m) = requestConnection_write s now ok u i m"
| "writePhase s (WFollowUser now u t) = followUser_write s now u t"
| "writePhase s (WAcceptConnection now ok u c) = acceptConnection_write s now ok u c"
| "writePhase s (WRejectConnection now c) = rejectConnection_write s now c"
| "writePhase s (WUnfollowUser u t) = unfollowUser s u t"

text \<open>
  The server: the store and the writes of the requests that are past their lookups. An
  event is the arrival of a request, which runs its lookups on the store as it is, or the
  write of the \<open>i\<close>-th request in flight.
\<close>

record config =
  store :: state
  inflight :: "pendingWrite list"

datatype event = Lookup request | Write nat

fun istep :: "config \<Rightarrow> event \<Rightarrow> config" where
  "istep k (Lookup r) =
     (case lookupPhase (store k) r of
        Inl e \<Rightarrow> k
      | Inr w \<Rightarrow> k\<lparr>inflight := inflight k @ [w]\<rparr>)"
| "istep k (Write i) =
     (if i < length (inflight k)
      then \<lparr>store = fst (writePhase (store k) (inflight k ! i)),
            inflight = take i (inflight k) @ drop (Suc i) (inflight k)\<rparr>
      else k)"

definition start :: "state \<Rightarrow> config" where
  "start s = \<lparr>store = s, inflight = []\<rparr>"

definition irun :: "config \<Rightarrow> event list \<Rightarrow> config" where
  "irun k es = foldl istep k es"

section \<open>Example data\<close>

definition ex_student :: user where
  "ex_student = \<lparr>u_id = 1, fullName = ''Ali'', role = Student, isVerified = True,
                 isActive = True, numberPaths = Map.empty\<rparr>"

definition ex_imaam :: user where
  "ex_imaam = \<lparr>u_id = 2, fullName = ''Bilal'', role = Imaam, isVerified = True,
               isActive = True, numberPaths = [''connectionsCount'' \<mapsto> 5]\<rparr>"

definition ex_imaam2 :: user where
  "ex_imaam2 = \<lparr>u_id = 3, fullName = ''Idris'', role = Imaam, isVerified = True,
                isActive = True, numberPaths = Map.empty\<rparr>"

definition ex_users :: "objectId \<rightharpoonup> user" where
  "ex_users = [1 \<mapsto> ex_student, 2 \<mapsto> ex_imaam, 3 \<mapsto> ex_imaam2]"

definition ex_state :: state where
  "ex_state = \<lparr>users = ex_users, connections = [], notifications = [], nextId = 10\<rparr>"


definition ex_data :: notificationData where
  "ex_data = \<lparr>d_recipient = 2, d_sender = Some 1, d_type = ''post_like'',
              d_title = ''Post Liked'', d_message = ''Ali liked your post'',
              d_relatedEntity = None, d_relatedEntityType = Some ''post'',
              d_priority = Some Medium, d_actionData = []\<rparr>"

text \<open>
  A history: user 1 asks imaam 2 for a connection (document 10), 2 rejects it, 2 follows
  1 (document 12).
\<close>

definition ex_request :: "status \<Rightarrow> date \<Rightarrow> connection" where
  "ex_request st t =
    \<lparr>c_id = 10, requester = 1, recipient = 2, status = st, ctype = StudentTeacher,
     message = Some [], acceptedAt = None, lastInteraction = t, createdAt = 100\<rparr>"

definition ex_follow :: "status \<Rightarrow> date option \<Rightarrow> date \<Rightarrow> connection" where
  "ex_follow st a t =
    \<lparr>c_id = 12, requester = 2, recipient = 1, status = st, ctype = Peer,
     message = None, acceptedAt = a, lastInteraction = t, createdAt = 102\<rparr>"

definition ex_note1 :: notification where
  "ex_note1 =
    \<lparr>n_id = 11, n_recipient = 2, n_sender = Some 1, n_type = ''connection_request'',
     n_title = ''New Connection Request'', n_message = ''Ali wants to connect with you'',
     n_relatedEntity = Some 10, n_relatedEntityType = Some ''connection'',
     n_isRead = False, n_readAt = None, n_priority = Medium,
     n_actionData = [(''connectionId'', AId 10), (''requesterName'', AStr ''Ali'')],
     n_createdAt = 100\<rparr>"

definition ex_pending :: state where
  "ex_pending = step ex_state (ReqRequestConnection 100 True ex_student 2 None)"

definition ex_rejected :: state where
  "ex_rejected = step ex_pending (ReqRejectConnection 101 ex_imaam 10)"

definition ex_reversed :: state where
  "ex_reversed = step ex_rejected (ReqFollowUser 102 ex_imaam 1)"

text \<open>
  A history between two imaams: 3 follows 2 (document 10), 2 rejects, 2 follows 3
  (document 11), 3 accepts, 3 unfollows 2.
\<close>

definition ex_ask :: "status \<Rightarrow> date \<Rightarrow> connection" where
  "ex_ask st t =
    \<lparr>c_id = 10, requester = 3, recipient = 2, status = st, ctype = Peer,
     message = None, acceptedAt = None, lastInteraction = t, createdAt = 100\<rparr>"

definition ex_return :: "status \<Rightarrow> date option \<Rightarrow> date \<Rightarrow> connection" where
  "ex_return st a t =
    \<lparr>c_id = 11, requester = 2, recipient = 3, status = st, ctype = Peer,
     message = None, acceptedAt = a, lastInteraction = t, createdAt = 102\<rparr>"

definition ex_note2 :: notification where
  "ex_note2 =
    \<lparr>n_id = 12, n_recipient = 2, n_sender = Some 3, n_type = ''connection_accepted'',
     n_title = ''Connection Accepted'',
     n_message = ''Idris accepted your connection request'',
     n_relatedEntity = Some 11, n_relatedEntityType = Some ''connection'',
     n_isRead = False, n_readAt = None, n_priority = Medium,
     n_actionData = [(''connectionId'', AId 11), (''imaamName'', AStr ''Idris'')],
     n_createdAt = 103\<rparr>"

definition ex_asked :: state where
  "ex_asked = step ex_state (ReqFollowUser 100 ex_imaam2 2)"

definition ex_declined :: state where
  "ex_declined = step ex_asked (ReqRejectConnection 101 ex_imaam 10)"

definition ex_returned :: state where
  "ex_returned = step ex_declined (ReqFollowUser 102 ex_imaam 3)"

definition ex_connected :: state where
  "ex_connected = step ex_returned (ReqAcceptConnection 103 True ex_imaam2 11)"

definition ex_unfollowed :: state where
  "ex_unfollowed = step ex_connected (ReqUnfollowUser ex_imaam2 2)"

definition responseCode :: "error + response \<Rightarrow> nat option" where
  "responseCode r = (case r of Inl e \<Rightarrow> None | Inr resp \<Rightarrow> Some (code resp))"

section \<open>The shape of a response body\<close>

definition getField :: "string \<Rightarrow> jvalue \<Rightarrow> jvalue option" where
  "getField k v = (case v of VObj kvs \<Rightarrow> map_of kvs k | _ \<Rightarrow> None)"

definition paginationFields :: "string list" where
  "paginationFields = [''currentPage'', ''totalPages'', ''totalItems'', ''hasNext'', ''hasPrev'']"

definition hasFields :: "string list \<Rightarrow> jvalue \<Rightarrow> bool" where
  "hasFields ks v = list_all (\<lambda>k. getField k v \<noteq> None) ks"

text \<open>The pagination fields are looked for in the body itself, in its \<open>data\<close> and in
  \<open>data.pagination\<close>.\<close>

definition carriesPagination :: "jvalue \<Rightarrow> bool" where
  "carriesPagination b =
    (hasFields paginationFields b \<or>
     (case getField ''data'' b of
        None \<Rightarrow> False
      | Some d \<Rightarrow>
          hasFields paginationFields d \<or>
          (case getField ''pagination'' d of
             None \<Rightarrow> False
           | Some p \<Rightarrow> hasFields paginationFields p)))"

section \<open>Invariants when requests are handled one at a time\<close>

definition pairKey :: "connection \<Rightarrow> objectId \<times> objectId" where
  "pairKey c = (requester c, recipient c)"

definition live :: "connection \<Rightarrow> bool" where
  "live c = (status c = Pending \<or> status c = Accepted)"

text \<open>
  What holds of the stored connections after any sequence of requests handled one at a
  time: the \<open>_id\<close>s are distinct and below the next fresh one, no two documents have the
  same requester and recipient, nobody is connected to themselves, and an unordered pair
  of users has at most one document that is pending or accepted.
\<close>

definition ledger_ok :: "state \<Rightarrow> bool" where
  "ledger_ok s =
    (distinct (map c_id (connections s)) \<and>
     distinct (map pairKey (connections s)) \<and>
     (\<forall>c\<in>set (connections s). c_id c < nextId s \<and> requester c \<noteq> recipient c) \<and>
     (\<forall>c\<in>set (connections s). \<forall>d\<in>set (connections s).
        live c \<and> live d \<and> samePair (requester c) (recipient c) d \<longrightarrow> c = d))"

text \<open>
  The four ways a request handled on its own changes the collection: not at all, by inserting a pending
  document that passed the lookup and the unique index, by turning a pending document
  into an accepted or rejected one, or by deleting an accepted document.
\<close>

inductive ledger_step :: "state \<Rightarrow> state \<Rightarrow> bool" where
  unchanged:
    "connections s' = connections s \<Longrightarrow> nextId s \<le> nextId s' \<Longrightarrow> ledger_step s s'"
| inserted:
    "connections s' = connections s @ [c] \<Longrightarrow> c_id c = nextId s \<Longrightarrow> nextId s < nextId s' \<Longrightarrow>
     status c = Pending \<Longrightarrow> requester c \<noteq> recipient c \<Longrightarrow>
     find (\<lambda>d. requester d = requester c \<and> recipient d = recipient c) (connections s) = None \<Longrightarrow>
     existingConnectionError msg (find (samePair (requester c) (recipient c)) (connections s)) = None \<Longrightarrow>
     ledger_step s s'"
| updated:
    "c \<in> set (connections s) \<Longrightarrow> status c = Pending \<Longrightarrow> c_id c' = c_id c \<Longrightarrow>
     requester c' = requester c \<Longrightarrow> recipient c' = recipient c \<Longrightarrow>
     status c' = Accepted \<or> status c' = Rejected \<Longrightarrow>
     connections s' = map (\<lambda>d. if c_id d = c_id c then c' else d) (connections s) \<Longrightarrow>
     nextId s \<le> nextId s' \<Longrightarrow> ledger_step s s'"
| deleted:
    "c \<in> set (connections s) \<Longrightarrow> status c = Accepted \<Longrightarrow>
     connections s' = remove1 c (connections s) \<Longrightarrow> nextId s \<le> nextId s' \<Longrightarrow>
     ledger_step s s'"

definition transition_ok :: "status \<Rightarrow> status \<Rightarrow> bool" where
  "transition_ok a b = (a = b \<or> (a = Pending \<and> (b = Accepted \<or> b = Rejected)))"

text \<open>Another history: imaam 2 follows imaam 3 (document 10) and 3 accepts.\<close>

definition ex_followed :: state where
  "ex_followed = step ex_state (ReqFollowUser 100 ex_imaam 3)"

definition ex_peers :: state where
  "ex_peers = step ex_followed (ReqAcceptConnection 101 True ex_imaam2 10)"

definition ex_peer :: "status \<Rightarrow> date option \<Rightarrow> date \<Rightarrow> connection" where
  "ex_peer st a t =
    \<lparr>c_id = 10, requester = 2, recipient = 3, status = st, ctype = Peer,
     message = None, acceptedAt = a, lastInteraction = t, createdAt = 100\<rparr>"

definition ex_note3 :: notification where
  "ex_note3 =
    \<lparr>n_id = 11, n_recipient = 2, n_sender = Some 3, n_type = ''connection_accepted'',
     n_title = ''Connection Accepted'',
     n_message = ''Idris accepted your connection request'',
     n_relatedEntity = Some 10, n_relatedEntityType = Some ''connection'',
     n_isRead = False, n_readAt = None, n_priority = Medium,
     n_actionData = [(''connectionId'', AId 10), (''imaamName'', AStr ''Idris'')],
     n_createdAt = 101\<rparr>"

text \<open>
  A race: with the request of user 1 pending, imaam 2 sends an accept and a reject of
  it; both lookups run before either write.
\<close>

definition ex_race_accepted :: config where
  "ex_race_accepted =
    irun (start ex_pending)
      [Lookup (ReqAcceptConnection 101 True ex_imaam 10),
       Lookup (ReqRejectConnection 102 ex_imaam 10),
       Write 0]"

definition ex_race_rejected :: config where
  "ex_race_rejected = istep ex_race_accepted (Write 0)"

definition ex_note4 :: notification where
  "ex_note4 =
    \<lparr>n_id = 12, n_recipient = 1, n_sender = Some 2, n_type = ''connection_accepted'',
     n_title = ''Connection Accepted'',
     n_message = ''Bilal accepted your connection request'',
     n_relatedEntity = Some 10, n_relatedEntityType = Some ''connection'',
     n_isRead = False, n_readAt = None, n_priority = Medium,
     n_actionData = [(''connectionId'', AId 10), (''imaamName'', AStr ''Bilal'')],
     n_createdAt = 101\<rparr>"

text \<open>Another race: imaams 2 and 3 follow each other, both lookups before either
  insert.\<close>

definition ex_race_follows :: config where
  "ex_race_follows =
    irun (start ex_state)
      [Lookup (ReqFollowUser 100 ex_imaam 3), Lookup (ReqFollowUser 101 ex_imaam2 2),
       Write 0, Write 0]"

section \<open>Invariants under concurrent requests\<close>

text \<open>
  What the store and the pre-save hook keep whatever the interleaving: distinct \<open>_id\<close>s
  below the next fresh one, nobody connected to themselves, and no two documents with
  the same requester and recipient.
\<close>

definition store_ok :: "state \<Rightarrow> bool" where
  "store_ok s =
    (distinct (map c_id (connections s)) \<and>
     distinct (map pairKey (connections s)) \<and>
     (\<forall>c\<in>set (connections s). c_id c < nextId s \<and> requester c \<noteq> recipient c))"

text \<open>
  The ways a write changes the collection: not at all, by inserting a pending document
  that passed the hook and the unique index, by setting the status of a stored document
  to accepted or rejected, or by deleting a document.
\<close>

inductive store_step :: "state \<Rightarrow> state \<Rightarrow> bool" where
  kept:
    "connections s' = connections s \<Longrightarrow> nextId s \<le> nextId s' \<Longrightarrow> store_step s s'"
| created:
    "connections s' = connections s @ [c] \<Longrightarrow> c_id c = nextId s \<Longrightarrow> nextId s < nextId s' \<Longrightarrow>
     status c = Pending \<Longrightarrow> requester c \<noteq> recipient c \<Longrightarrow>
     find (\<lambda>d. requester d = requester c \<and> recipient d = recipient c) (connections s) = None \<Longrightarrow>
     store_step s s'"
| saved:
    "st = Accepted \<or> st = Rejected \<Longrightarrow>
     connections s' =
       map (\<lambda>d. if c_id d = k then d\<lparr>status := st, acceptedAt := a d, lastInteraction := t\<rparr>
                else d) (connections s) \<Longrightarrow>
     nextId s \<le> nextId s' \<Longrightarrow> store_step s s'"
| removed:
    "c \<in> set (connections s) \<Longrightarrow> connections s' = remove1 c (connections s) \<Longrightarrow>
     nextId s \<le> nextId s' \<Longrightarrow> store_step s s'"

text \<open>The changes of status a stored document can go through under concurrent
  requests.\<close>

definition race_transition_ok :: "status \<Rightarrow> status \<Rightarrow> bool" where
  "race_transition_ok a b = (b = a \<or> b = Accepted \<or> b = Rejected)"

text \<open>The events of requests handled one at a time: each request's lookups are
  followed at once by its write.\<close>

definition one_at_a_time :: "request list \<Rightarrow> event list" where
  "one_at_a_time rs = concat (map (\<lambda>r. [Lookup r, Write 0]) rs)"

section \<open>Evaluation of the model\<close>

lemma ex_users_simps:
  "ex_users 1 = Some ex_student" "ex_users (Suc 0) = Some ex_student"
  "ex_users 2 = Some ex_imaam" "ex_users 3 = Some ex_imaam2"
  by (simp_all add: ex_users_def)

lemmas example_defs = ex_student_def ex_imaam_def ex_imaam2_def ex_users_simps ex_state_def
  ex_data_def ex_request_def ex_follow_def ex_note1_def ex_note2_def ex_peer_def ex_note3_def
  ex_ask_def ex_return_def ex_note4_def

lemmas model_defs =
  castUpdate_def userSchema_paths_def userSchema_strict_def inc_path_def
  findByIdAndUpdate_inc_def connectionsCount_def findVerifiedImaamById_def
  notificationTypes_def relatedEntityTypes_def priorityMap_def notification_pre_save_def
  notification_validate_def createNotification_def is_ws_def trim_str_def
  connection_validate_def connection_pre_save_def connection_post_save_def samePair_def
  getConnection_def Connection_create_def Connection_save_def accept_def reject_def
  okBody_def existingConnectionError_def connectionRequestData_def
  connectionAcceptedData_def requestConnection_def queryNumber_def
  findPendingFor_def acceptConnection_def rejectConnection_def followUser_def
  findOneAndDelete_def unfollowUser_def step_def run_def Let_def authorize_def
  requestConnection_lookup_def followUser_lookup_def requestConnection_write_def
  followUser_write_def save_paths_def acceptConnection_write_def rejectConnection_write_def
  start_def irun_def

lemma ex_pending_val:
  "ex_pending = \<lparr>users = ex_users, connections = [ex_request Pending 100],
                  notifications = [ex_note1], nextId = 12\<rparr>"
  by (simp add: ex_pending_def example_defs model_defs)

lemma ex_rejected_val:
  "ex_rejected = \<lparr>users = ex_users, connections = [ex_request Rejected 101],
                   notifications = [ex_note1], nextId = 12\<rparr>"
  by (simp add: ex_rejected_def ex_pending_val example_defs model_defs)

lemma ex_reversed_val:
  "ex_reversed = \<lparr>users = ex_users,
                   connections = [ex_request Rejected 101, ex_follow Pending None 102],
                   notifications = [ex_note1], nextId = 13\<rparr>"
  by (simp add: ex_reversed_def ex_rejected_val example_defs model_defs)

lemma ex_asked_val:
  "ex_asked = \<lparr>users = ex_users, connections = [ex_ask Pending 100],
                notifications = [], nextId = 11\<rparr>"
  by (simp add: ex_asked_def example_defs model_defs)

lemma ex_declined_val:
  "ex_declined = \<lparr>users = ex_users, connections = [ex_ask Rejected 101],
                   notifications = [], nextId = 11\<rparr>"
  by (simp add: ex_declined_def ex_asked_val example_defs model_defs)

lemma ex_returned_val:
  "ex_returned = \<lparr>users = ex_users,
                   connections = [ex_ask Rejected 101, ex_return Pending None 102],
                   notifications = [], nextId = 12\<rparr>"
  by (simp add: ex_returned_def ex_declined_val example_defs model_defs)

lemma ex_connected_val:
  "ex_connected = \<lparr>users = ex_users,
                    connections = [ex_ask Rejected 101, ex_return Accepted (Some 103) 103],
                    notifications = [ex_note2], nextId = 13\<rparr>"
  by (simp add: ex_connected_def ex_returned_val example_defs model_defs)

lemma ex_unfollowed_val:
  "ex_unfollowed = \<lparr>users = ex_users, connections = [ex_ask Rejected 101],
                     notifications = [ex_note2], nextId = 13\<rparr>"
  by (simp add: ex_unfollowed_def ex_connected_val example_defs model_defs)

lemma ex_followed_val:
  "ex_followed = \<lparr>users = ex_users, connections = [ex_peer Pending None 100],
                   notifications = [], nextId = 11\<rparr>"
  by (simp add: ex_followed_def example_defs model_defs)

lemma ex_peers_val:
  "ex_peers = \<lparr>users = ex_users, connections = [ex_peer Accepted (Some 101) 101],
                notifications = [ex_note3], nextId = 12\<rparr>"
  by (simp add: ex_peers_def ex_followed_val example_defs model_defs)

lemma ex_race_accepted_val:
  "ex_race_accepted =
     \<lparr>store = \<lparr>users = ex_users,
                connections = [(ex_request Accepted 101)\<lparr>acceptedAt := Some 101\<rparr>],
                notifications = [ex_note1, ex_note4], nextId = 13\<rparr>,
      inflight = [WRejectConnection 102 (ex_request Pending 100)]\<rparr>"
  by (simp add: ex_race_accepted_def ex_pending_val example_defs model_defs)

lemma ex_race_rejected_val:
  "ex_race_rejected =
     \<lparr>store = \<lparr>users = ex_users,
                connections = [(ex_request Rejected 102)\<lparr>acceptedAt := Some 101\<rparr>],
                notifications = [ex_note1, ex_note4], nextId = 13\<rparr>,
      inflight = []\<rparr>"
  by (simp add: ex_race_rejected_def ex_race_accepted_val example_defs model_defs)

lemma ex_race_follows_val:
  "store ex_race_follows =
     \<lparr>users = ex_users,
      connections = [ex_peer Pending None 100,
                     \<lparr>c_id = 11, requester = 3, recipient = 2, status = Pending,
                      ctype = Peer, message = None, acceptedAt = None,
                      lastInteraction = 101, createdAt = 101\<rparr>],
      notifications = [], nextId = 12\<rparr>"
  by (simp add: ex_race_follows_def example_defs model_defs)

section \<open>The priority of a created notification\<close>

lemma tableLookup_cases:
  "(case map_of priorityMap t of None \<Rightarrow> Medium | Some q \<Rightarrow> q) =
     (if t \<in> {''post_like'', ''comment_like'', ''new_follower''} then Low
      else if t \<in> {''lesson_reminder'', ''system_announcement'', ''message_received''} then High
      else Medium)"
  by (simp add: priorityMap_def)





section \<open>Effects of the model operations\<close>

lemma find_SomeD: "find P xs = Some x \<Longrightarrow> x \<in> set xs \<and> P x"
  by (induction xs) (auto split: if_splits)

lemma find_None_iff2: "find P xs = None \<longleftrightarrow> (\<forall>x\<in>set xs. \<not> P x)"
  by (induction xs) auto

lemma inc_connectionsCount_dropped:
  "findByIdAndUpdate_inc userSchema_strict us uid ''connectionsCount'' d = us"
  by (simp add: findByIdAndUpdate_inc_def castUpdate_def userSchema_strict_def
      userSchema_paths_def)

lemma connection_post_save_id: "connection_post_save isNew c us = us"
  by (simp add: connection_post_save_def inc_connectionsCount_dropped)

lemma createNotification_Inr:
  assumes "createNotification s now ok d = Inr (s', n)"
  shows "connections s' = connections s" "users s' = users s"
    "notifications s' = notifications s @ [n]" "nextId s' = Suc (nextId s)"
    "n_type n = d_type d" "n_recipient n = d_recipient d" "n_sender n = d_sender d" "ok"
  using assms
  by (auto simp: createNotification_def Let_def split: option.splits if_splits)

lemma createNotification_Inl:
  "createNotification s now ok d = Inl e \<Longrightarrow>
     (notification_validate d = Some e) \<or> (notification_validate d = None \<and> \<not> ok \<and> e = StoreError)"
  by (auto simp: createNotification_def Let_def split: option.splits if_splits)

lemma createNotification_fail:
  "createNotification s now True d = Inr (s', n) \<Longrightarrow> createNotification s now False d = Inl StoreError"
  by (auto simp: createNotification_def Let_def split: option.splits if_splits)

lemma Connection_create_Inr:
  assumes "Connection_create s now a b ty msg st = Inr (s', c)"
  shows "connections s' = connections s @ [c]" "users s' = users s"
    "notifications s' = notifications s" "nextId s' = Suc (nextId s)"
    "c_id c = nextId s" "requester c = a" "recipient c = b" "status c = st" "ctype c = ty"
    "lastInteraction c = now" "acceptedAt c = None" "a \<noteq> b"
    "find (\<lambda>d. requester d = a \<and> recipient d = b) (connections s) = None"
  using assms
  by (auto simp: Connection_create_def Let_def connection_post_save_id connection_pre_save_def
      split: option.splits if_splits)

lemma Connection_save_Inr:
  assumes "Connection_save s c = Inr s'"
  shows "connections s' = map (\<lambda>d. if c_id d = c_id c then c else d) (connections s)"
    "users s' = users s" "notifications s' = notifications s" "nextId s' = nextId s"
    "requester c \<noteq> recipient c"
  using assms
  by (auto simp: Connection_save_def connection_post_save_id connection_pre_save_def
      split: option.splits if_splits)

lemma accept_Inr:
  assumes "accept s now c = Inr (s', c')"
  shows "c' = c\<lparr>status := Accepted, acceptedAt := Some now, lastInteraction := now\<rparr>"
    "connections s' = map (\<lambda>d. if c_id d = c_id c then c' else d) (connections s)"
    "users s' = users s" "notifications s' = notifications s" "nextId s' = nextId s"
    "requester c \<noteq> recipient c"
  using assms
  by (auto simp: accept_def Let_def split: sum.splits dest: Connection_save_Inr)

lemma reject_Inr:
  assumes "reject s now c = Inr (s', c')"
  shows "c' = c\<lparr>status := Rejected, lastInteraction := now\<rparr>"
    "connections s' = map (\<lambda>d. if c_id d = c_id c then c' else d) (connections s)"
    "users s' = users s" "notifications s' = notifications s" "nextId s' = nextId s"
    "requester c \<noteq> recipient c"
  using assms
  by (auto simp: reject_def Let_def split: sum.splits dest: Connection_save_Inr)

section \<open>followUser\<close>

lemma followUser_Inr:
  assumes "followUser s now u t = (s', Inr resp)"
  shows "\<exists>c. Connection_create s now (u_id u) t Peer None Pending = Inr (s', c) \<and>
             resp = \<lparr>code = 200, body = okBody ''Follow request sent successfully'' (Some (VConn c))\<rparr>"
    and "existingConnectionError ''Already following this user''
           (find (samePair (u_id u) t) (connections s)) = None"
    and "\<exists>tu. users s t = Some tu \<and> isActive tu"
  using assms
  by (auto simp: followUser_def Let_def split: option.splits sum.splits if_splits)

lemma followUser_notifications:
  "notifications (fst (followUser s now u t)) = notifications s"
  by (auto simp: followUser_def Let_def split: option.splits sum.splits if_splits
      dest: Connection_create_Inr(3))

lemma requestConnection_Inr:
  assumes "requestConnection s now ok u i m = (s', Inr resp)"
  shows "\<exists>s1 c n. Connection_create s now (u_id u) i StudentTeacher
                   (Some (case m of None \<Rightarrow> [] | Some x \<Rightarrow> x)) Pending = Inr (s1, c) \<and>
            createNotification s1 now ok (connectionRequestData u i c) = Inr (s', n) \<and>
            resp = \<lparr>code = 201, body = okBody ''Connection request sent successfully'' (Some (VConn c))\<rparr>"
  using assms
  by (auto simp: requestConnection_def Let_def split: option.splits sum.splits if_splits)

text \<open>
  C10: a successful \<open>followUser\<close> appends one pending peer connection and leaves the
  notifications and the users as they were, whereas a successful \<open>requestConnection\<close>
  appends a \<open>connection_request\<close> notification for the recipient.
\<close>

theorem C10_follow_emits_no_notification:
  "(followUser s now u t = (s', Inr resp) \<longrightarrow>
      notifications s' = notifications s \<and> users s' = users s \<and>
      (\<exists>c. connections s' = connections s @ [c] \<and> status c = Pending \<and> ctype c = Peer \<and>
           requester c = u_id u \<and> recipient c = t)) \<and>
   (requestConnection s now ok u t m = (s'', Inr resp') \<longrightarrow>
      (\<exists>n. notifications s'' = notifications s @ [n] \<and> n_type n = ''connection_request'' \<and>
           n_recipient n = t))"
proof (intro conjI impI)
  assume a: "followUser s now u t = (s', Inr resp)"
  from followUser_Inr(1) [OF a] obtain c
    where c: "Connection_create s now (u_id u) t Peer None Pending = Inr (s', c)" by blast
  note e = Connection_create_Inr [OF c]
  show "notifications s' = notifications s" by (rule e(3))
  show "users s' = users s" by (rule e(2))
  show "\<exists>c. connections s' = connections s @ [c] \<and> status c = Pending \<and> ctype c = Peer \<and>
           requester c = u_id u \<and> recipient c = t"
    using e by blast
next
  assume a: "requestConnection s now ok u t m = (s'', Inr resp')"
  from requestConnection_Inr [OF a] obtain s1 c n
    where c: "Connection_create s now (u_id u) t StudentTeacher
                (Some (case m of None \<Rightarrow> [] | Some x \<Rightarrow> x)) Pending = Inr (s1, c)"
      and n: "createNotification s1 now ok (connectionRequestData u t c) = Inr (s'', n)"
    by blast
  note e = Connection_create_Inr [OF c]
  note f = createNotification_Inr [OF n]
  show "\<exists>n. notifications s'' = notifications s @ [n] \<and> n_type n = ''connection_request'' \<and>
           n_recipient n = t"
    using e(3) f(3,5,6) by (auto simp: connectionRequestData_def)
qed

theorem C10_follow_emits_no_notification_witness:
  "notifications (fst (followUser ex_state 100 ex_student 2)) = [] \<and>
   map n_type (notifications (fst (requestConnection ex_state 100 True ex_student 2 None)))
     = [''connection_request'']"
proof -
  obtain s1 r1 where f: "followUser ex_state 100 ex_student 2 = (s1, Inr r1)"
    by (simp add: example_defs model_defs)
  obtain s2 r2 where q: "requestConnection ex_state 100 True ex_student 2 None = (s2, Inr r2)"
    by (simp add: example_defs model_defs)
  have e: "notifications ex_state = []" by (simp add: ex_state_def)
  from C10_follow_emits_no_notification [of ex_state 100 ex_student 2 s1 r1 True None s2 r2] f q e
  show ?thesis by auto
qed

lemmas shape_defs = getField_def paginationFields_def hasFields_def carriesPagination_def

section \<open>Paged lists\<close>

lemma getImaamList_body_pagination:
  "carriesPagination (getImaamList_body imaam totalCount qpage qlimit)"
  by (simp add: getImaamList_body_def Let_def shape_defs)

text \<open>
  C9: the claim asks of every paged list, the pending requests of a recipient included,
  the fields \<open>currentPage\<close>, \<open>totalPages\<close>, \<open>totalItems\<close>, \<open>hasNext\<close> and \<open>hasPrev\<close>. Whatever the
  request, the body \<open>getConnectionRequests\<close> sends has the two fields \<open>success\<close> and \<open>data\<close>
  and carries none of the pagination fields, at any of the three places; \<open>getImaamList\<close>,
  in the same controller, sends them in \<open>data.pagination\<close>.
\<close>

theorem C9_pending_list_without_pagination:
  "\<not> carriesPagination (body (getConnectionRequests s reqUser qpage qlimit)) \<and>
   map fst (case body (getConnectionRequests s reqUser qpage qlimit) of VObj kvs \<Rightarrow> kvs | _ \<Rightarrow> [])
     = [''success'', ''data'']"
  by (simp add: getConnectionRequests_def Let_def shape_defs)

section \<open>The connection counters\<close>

lemma inc_declared_path:
  assumes "us uid = Some u"
  shows "map_option (\<lambda>v. numberPaths v ''studentsCount'')
           (findByIdAndUpdate_inc userSchema_strict us uid ''studentsCount'' d uid)
         = Some (Some ((case numberPaths u ''studentsCount'' of None \<Rightarrow> 0 | Some v \<Rightarrow> v) + d))"
  using assms
  by (simp add: findByIdAndUpdate_inc_def castUpdate_def userSchema_paths_def inc_path_def
      split: option.splits)

lemma inc_connectionsCount_not_strict:
  assumes "us uid = Some u"
  shows "map_option connectionsCount
           (findByIdAndUpdate_inc False us uid ''connectionsCount'' d uid)
         = Some (Some ((case connectionsCount u of None \<Rightarrow> 0 | Some v \<Rightarrow> v) + d))"
  using assms
  by (simp add: findByIdAndUpdate_inc_def castUpdate_def inc_path_def connectionsCount_def
      split: option.splits)

lemma acceptConnection_users: "users (fst (acceptConnection s now ok u cid)) = users s"
proof (cases "findPendingFor (connections s) cid (u_id u)")
  case None
  then show ?thesis by (simp add: acceptConnection_def)
next
  case (Some c)
  show ?thesis
  proof (cases "accept s now c")
    case (Inl e)
    with Some show ?thesis by (simp add: acceptConnection_def)
  next
    case (Inr p)
    obtain s1 c' where p: "p = (s1, c')" by (cases p)
    have u1: "users s1 = users s" using accept_Inr(3) Inr p by blast
    show ?thesis
    proof (cases "createNotification s1 now ok (connectionAcceptedData u c')")
      case (Inl e)
      with Some Inr p u1 show ?thesis
        by (simp add: acceptConnection_def Let_def inc_connectionsCount_dropped)
    next
      case (Inr r)
      obtain s3 n where r: "r = (s3, n)" by (cases r)
      have "users s3 = users s1" using createNotification_Inr(2) Inr r by blast
      with Some \<open>accept s now c = Inr p\<close> p u1 Inr r show ?thesis
        by (simp add: acceptConnection_def Let_def inc_connectionsCount_dropped)
    qed
  qed
qed

lemma unfollowUser_users: "users (fst (unfollowUser s u t)) = users s"
  by (auto simp: unfollowUser_def Let_def inc_connectionsCount_dropped
      split: option.splits prod.splits)

text \<open>
  C1: the claim asks that a successful accept raises \<open>connectionsCount\<close> of both accounts
  by one. The handler issues the two \<open>$inc\<close> updates, but \<open>userSchema\<close> declares no path
  \<open>connectionsCount\<close>, so both are dropped: the accept below answers 200 and turns the
  request from pending to accepted, and the requester still has no \<open>connectionsCount\<close>
  and the recipient still has 5.
\<close>

theorem C1_accept_leaves_counters:
  "responseCode (snd (acceptConnection ex_pending 101 True ex_imaam 10)) = Some 200 \<and>
   map status (connections ex_pending) = [Pending] \<and>
   map status (connections (fst (acceptConnection ex_pending 101 True ex_imaam 10))) = [Accepted] \<and>
   map_option connectionsCount (users ex_pending 1) = Some None \<and>
   map_option connectionsCount (users ex_pending 2) = Some (Some 5) \<and>
   map_option connectionsCount (users (fst (acceptConnection ex_pending 101 True ex_imaam 10)) 1)
     = Some None \<and>
   map_option connectionsCount (users (fst (acceptConnection ex_pending 101 True ex_imaam 10)) 2)
     = Some (Some 5)"
  by (simp add: ex_pending_val responseCode_def example_defs model_defs)

section \<open>A failing notification write\<close>

lemma acceptConnection_Inr:
  assumes "acceptConnection s now ok u cid = (s', Inr resp)"
  shows "\<exists>c s1 c' n. findPendingFor (connections s) cid (u_id u) = Some c \<and>
           accept s now c = Inr (s1, c') \<and>
           createNotification s1 now ok (connectionAcceptedData u c') = Inr (s', n) \<and>
           resp = \<lparr>code = 200, body = okBody ''Connection request accepted successfully''
                                    (Some (VConn c'))\<rparr>"
  using assms
  by (auto simp: acceptConnection_def Let_def inc_connectionsCount_dropped
      split: option.splits sum.splits)

text \<open>
  C2, as stated, fails: with a notification store that refuses the write,
  \<open>requestConnection\<close> passes the error on instead of answering 201, while the pending
  connection it inserted stays.
\<close>

theorem C2_notification_failure_counterexample:
  "snd (requestConnection ex_state 100 False ex_student 2 None) = Inl StoreError \<and>
   map status (connections (fst (requestConnection ex_state 100 False ex_student 2 None)))
     = [Pending]"
  by (simp add: example_defs model_defs)

text \<open>
  C2, amended: where \<open>requestConnection\<close> or \<open>acceptConnection\<close> succeeds with a working
  notification store, the same call with a store that refuses the write fails with the
  store's error, and leaves the connections and the users exactly as the successful call
  does (nothing is rolled back) and the notifications as they were.
\<close>

theorem C2_notification_failure:
  "(requestConnection s now True u i m = (s1, Inr resp) \<longrightarrow>
      (\<exists>s2. requestConnection s now False u i m = (s2, Inl StoreError) \<and>
            connections s2 = connections s1 \<and> users s2 = users s1 \<and>
            notifications s2 = notifications s)) \<and>
   (acceptConnection s now True u cid = (s3, Inr resp') \<longrightarrow>
      (\<exists>s4. acceptConnection s now False u cid = (s4, Inl StoreError) \<and>
            connections s4 = connections s3 \<and> users s4 = users s3 \<and>
            notifications s4 = notifications s))"
proof (intro conjI impI)
  assume a: "requestConnection s now True u i m = (s1, Inr resp)"
  from requestConnection_Inr [OF a] obtain t c n
    where c: "Connection_create s now (u_id u) i StudentTeacher
                (Some (case m of None \<Rightarrow> [] | Some x \<Rightarrow> x)) Pending = Inr (t, c)"
      and n: "createNotification t now True (connectionRequestData u i c) = Inr (s1, n)"
    by blast
  have f: "createNotification t now False (connectionRequestData u i c) = Inl StoreError"
    by (rule createNotification_fail [OF n])
  have "requestConnection s now False u i m = (t, Inl StoreError)"
    using a c f
    by (auto simp: requestConnection_def Let_def split: option.splits if_splits)
  moreover have "connections t = connections s1" "users t = users s1"
    using createNotification_Inr [OF n] by simp_all
  moreover have "notifications t = notifications s"
    using Connection_create_Inr [OF c] by simp
  ultimately show "\<exists>s2. requestConnection s now False u i m = (s2, Inl StoreError) \<and>
            connections s2 = connections s1 \<and> users s2 = users s1 \<and>
            notifications s2 = notifications s"
    by blast
next
  assume a: "acceptConnection s now True u cid = (s3, Inr resp')"
  from acceptConnection_Inr [OF a] obtain c t c' n
    where p: "findPendingFor (connections s) cid (u_id u) = Some c"
      and c: "accept s now c = Inr (t, c')"
      and n: "createNotification t now True (connectionAcceptedData u c') = Inr (s3, n)"
    by blast
  have f: "createNotification t now False (connectionAcceptedData u c') = Inl StoreError"
    by (rule createNotification_fail [OF n])
  have "acceptConnection s now False u cid = (t, Inl StoreError)"
    using p c f
    by (simp add: acceptConnection_def Let_def inc_connectionsCount_dropped)
  moreover have "connections t = connections s3" "users t = users s3"
    using createNotification_Inr [OF n] by simp_all
  moreover have "notifications t = notifications s"
    using accept_Inr [OF c] by simp
  ultimately show "\<exists>s4. acceptConnection s now False u cid = (s4, Inl StoreError) \<and>
            connections s4 = connections s3 \<and> users s4 = users s3 \<and>
            notifications s4 = notifications s"
    by blast
qed

theorem C2_notification_failure_witness:
  "snd (requestConnection ex_state 100 False ex_student 2 None) = Inl StoreError \<and>
   connections (fst (requestConnection ex_state 100 False ex_student 2 None))
     = connections (fst (requestConnection ex_state 100 True ex_student 2 None)) \<and>
   snd (acceptConnection ex_pending 101 False ex_imaam 10) = Inl StoreError \<and>
   connections (fst (acceptConnection ex_pending 101 False ex_imaam 10))
     = connections (fst (acceptConnection ex_pending 101 True ex_imaam 10))"
proof -
  obtain s1 r1 where q: "requestConnection ex_state 100 True ex_student 2 None = (s1, Inr r1)"
    by (simp add: example_defs model_defs)
  obtain s3 r3 where a: "acceptConnection ex_pending 101 True ex_imaam 10 = (s3, Inr r3)"
    by (simp add: ex_pending_val example_defs model_defs)
  from C2_notification_failure [of ex_state 100 ex_student 2 None s1 r1 10 s1 r1] q
  obtain s2 where "requestConnection ex_state 100 False ex_student 2 None = (s2, Inl StoreError)"
    and "connections s2 = connections s1"
    by blast
  moreover
  from C2_notification_failure [of ex_pending 101 ex_imaam 2 None s3 r3 10 s3 r3] a
  obtain s4 where "acceptConnection ex_pending 101 False ex_imaam 10 = (s4, Inl StoreError)"
    and "connections s4 = connections s3"
    by blast
  ultimately show ?thesis
    using q a by simp
qed

section \<open>The guard of requestConnection\<close>

lemma existingConnectionError_None:
  "existingConnectionError a x = None \<longleftrightarrow>
     (\<forall>e. x = Some e \<longrightarrow> status e \<noteq> Accepted \<and> status e \<noteq> Pending)"
  by (auto simp: existingConnectionError_def split: option.splits)

lemma existingConnectionError_Some:
  "existingConnectionError a x = Some err \<Longrightarrow>
     (\<exists>e msg. x = Some e \<and> (status e = Accepted \<or> status e = Pending) \<and> err = AppError 400 msg)"
  by (auto simp: existingConnectionError_def split: option.splits if_splits)

lemma Connection_create_cases:
  "Connection_create s now a b ty (Some x) Pending =
     (if 200 < length (trim_str x)
        then Inl (ValidationError ''Message cannot exceed 200 characters'')
      else if a = b then Inl (HookError 400 ''Cannot connect to yourself'')
      else if \<exists>d\<in>set (connections s). requester d = a \<and> recipient d = b
        then Inl DuplicateKeyError
      else Inr (s\<lparr>connections := connections s @
                    [\<lparr>c_id = nextId s, requester = a, recipient = b, status = Pending,
                      ctype = ty, message = Some (trim_str x), acceptedAt = None,
                      lastInteraction = now, createdAt = now\<rparr>],
                  nextId := nextId s + 1\<rparr>,
                \<lparr>c_id = nextId s, requester = a, recipient = b, status = Pending,
                      ctype = ty, message = Some (trim_str x), acceptedAt = None,
                      lastInteraction = now, createdAt = now\<rparr>))"
  by (auto simp: Connection_create_def Let_def connection_validate_def connection_pre_save_def
      connection_post_save_id find_None_iff2)

lemma createNotification_not_AppError:
  "createNotification s now ok d \<noteq> Inl (AppError k msg)"
  by (auto simp: createNotification_def Let_def notification_validate_def
      split: option.splits if_splits)

lemma createNotification_connections:
  "createNotification s now ok d = Inr (s', n) \<Longrightarrow> connections s' = connections s"
  by (rule createNotification_Inr(1))

lemma trim_str_unicode:
  "trim_str [0xA0, 0x3000, 97, 0x20, 98, 0x2003, 0xFEFF] = [97, 0x20, 98]"
  by (simp add: trim_str_def is_ws_def)

text \<open>A message of 200 letters followed by U+00A0 is trimmed to its 200 letters, and
  the request is stored.\<close>

lemma trim_str_trailing_nbsp:
  assumes "0 < n"
  shows "trim_str (replicate n 97 @ [0xA0]) = replicate n 97"
proof -
  obtain m where n: "n = Suc m" using assms by (cases n) auto
  have a: "\<not> is_ws 97" "is_ws 0xA0" by (simp_all add: is_ws_def)
  have "dropWhile is_ws (replicate (Suc m) 97 @ [0xA0]) = replicate (Suc m) 97 @ [0xA0]"
    using a by simp
  moreover have "rev (replicate (Suc m) 97 @ [0xA0::nat]) = 0xA0 # replicate (Suc m) 97"
    by (simp add: replicate_append_same)
  moreover have "dropWhile is_ws (0xA0 # replicate (Suc m) 97) = replicate (Suc m) 97"
    using a by simp
  ultimately show ?thesis
    unfolding n trim_str_def by (simp add: replicate_append_same)
qed

lemma request_with_trailing_nbsp:
  "responseCode (snd (requestConnection ex_state 100 True ex_student 2
      (Some (replicate 200 97 @ [0xA0])))) = Some 201 \<and>
   map (map_option length \<circ> message)
     (connections (fst (requestConnection ex_state 100 True ex_student 2
        (Some (replicate 200 97 @ [0xA0]))))) = [Some 200]"
proof -
  have t: "trim_str (replicate 200 97 @ [160]) = replicate 200 97"
    using trim_str_trailing_nbsp [of 200] by simp
  show ?thesis
    by (simp add: t responseCode_def ex_student_def ex_imaam_def
      ex_users_simps ex_state_def castUpdate_def userSchema_paths_def userSchema_strict_def
      findByIdAndUpdate_inc_def findVerifiedImaamById_def notificationTypes_def
      relatedEntityTypes_def priorityMap_def notification_pre_save_def
      notification_validate_def createNotification_def connection_validate_def
      connection_pre_save_def connection_post_save_def samePair_def getConnection_def
      Connection_create_def okBody_def existingConnectionError_def connectionRequestData_def
      requestConnection_def Let_def)
qed

text \<open>
  C5, as stated, fails: with a rejected request from user 1 to user 2 stored, a new
  request from 1 to 2 passes the guard (the lookup finds a document that is neither
  accepted nor pending), and yet no document is inserted: the unique index on
  \<open>(requester, recipient)\<close> refuses the insert and the handler passes the duplicate-key
  error on.
\<close>

theorem C5_rerequest_counterexample:
  "map status (connections ex_rejected) = [Rejected] \<and>
   existingConnectionError ''Already connected to this Imaam''
     (getConnection (connections ex_rejected) 1 2) = None \<and>
   snd (requestConnection ex_rejected 102 True ex_student 2 None) = Inl DuplicateKeyError \<and>
   connections (fst (requestConnection ex_rejected 102 True ex_student 2 None))
     = connections ex_rejected"
  by (simp add: ex_rejected_val example_defs model_defs)

text \<open>
  C5, amended: for a request to a verified, active imaam other than the requester, the
  handler answers with a 400 \<open>AppError\<close> if and only if the lookup for the unordered pair
  returns a document whose status is accepted or pending. When the lookup returns nothing,
  or a rejected or blocked document, the guard lets the request through; then a pending
  document is appended provided the trimmed message has at most 200 characters and no
  document with the same requester and recipient is stored; otherwise the insert fails
  (validation error, respectively duplicate-key error) and the connections are unchanged.
\<close>

theorem C5_request_guard:
  assumes "i \<noteq> u_id u" and "findVerifiedImaamById (users s) i = Some im"
    and "requestConnection s now ok u i m = (s', r)"
  shows "((\<exists>msg. r = Inl (AppError 400 msg)) \<longleftrightarrow>
            (\<exists>e. getConnection (connections s) (u_id u) i = Some e \<and>
                 (status e = Accepted \<or> status e = Pending))) \<and>
         ((\<forall>e. getConnection (connections s) (u_id u) i = Some e \<longrightarrow>
                 status e = Rejected \<or> status e = Blocked) \<longrightarrow>
            (if 200 < length (trim_str (case m of None \<Rightarrow> [] | Some x \<Rightarrow> x))
               then r = Inl (ValidationError ''Message cannot exceed 200 characters'') \<and>
                    connections s' = connections s
             else if \<exists>d\<in>set (connections s). requester d = u_id u \<and> recipient d = i
               then r = Inl DuplicateKeyError \<and> connections s' = connections s
             else \<exists>c. connections s' = connections s @ [c] \<and> status c = Pending \<and>
                      requester c = u_id u \<and> recipient c = i \<and> ctype c = StudentTeacher \<and>
                      lastInteraction c = now))"
proof (cases "existingConnectionError ''Already connected to this Imaam''
                (getConnection (connections s) (u_id u) i)")
  case (Some err)
  from existingConnectionError_Some [OF Some] obtain e msg
    where e: "getConnection (connections s) (u_id u) i = Some e"
      "status e = Accepted \<or> status e = Pending" "err = AppError 400 msg"
    by blast
  have "r = Inl (AppError 400 msg)"
    using assms Some e(3) by (simp add: requestConnection_def)
  with e show ?thesis by auto
next
  case None
  let ?x = "case m of None \<Rightarrow> [] | Some x \<Rightarrow> x"
  have live: "\<not> (\<exists>e. getConnection (connections s) (u_id u) i = Some e \<and>
                 (status e = Accepted \<or> status e = Pending))"
    using None by (auto simp: existingConnectionError_None)
  have run: "(s', r) =
      (case Connection_create s now (u_id u) i StudentTeacher (Some ?x) Pending of
         Inl e \<Rightarrow> (s, Inl e)
       | Inr (s1, conn) \<Rightarrow>
           (case createNotification s1 now ok (connectionRequestData u i conn) of
              Inl e \<Rightarrow> (s1, Inl e)
            | Inr (s2, n) \<Rightarrow>
                (s2, Inr \<lparr>code = 201,
                          body = okBody ''Connection request sent successfully''
                                   (Some (VConn conn))\<rparr>)))"
    using assms None by (simp add: requestConnection_def)
  have noApp: "\<not> (\<exists>msg. r = Inl (AppError 400 msg))"
    using run assms(1) createNotification_not_AppError
    by (auto simp: Connection_create_cases split: if_splits sum.splits)
  have eff: "if 200 < length (trim_str ?x)
               then r = Inl (ValidationError ''Message cannot exceed 200 characters'') \<and>
                    connections s' = connections s
             else if \<exists>d\<in>set (connections s). requester d = u_id u \<and> recipient d = i
               then r = Inl DuplicateKeyError \<and> connections s' = connections s
             else \<exists>c. connections s' = connections s @ [c] \<and> status c = Pending \<and>
                      requester c = u_id u \<and> recipient c = i \<and> ctype c = StudentTeacher \<and>
                      lastInteraction c = now"
    using run assms(1)
    by (auto simp: Connection_create_cases split: if_splits sum.splits
        dest!: createNotification_connections)
  from live noApp eff show ?thesis by blast
qed

theorem C5_request_guard_witness:
  "2 \<noteq> u_id ex_student \<and>
   findVerifiedImaamById (users ex_state) 2 = Some ex_imaam \<and>
   map status (connections (fst (requestConnection ex_state 100 True ex_student 2 None)))
     = [Pending] \<and>
   (\<exists>msg. snd (requestConnection ex_pending 101 True ex_student 2 None)
            = Inl (AppError 400 msg))"
proof -
  have h1: "2 \<noteq> u_id ex_student" by (simp add: ex_student_def)
  have h2: "findVerifiedImaamById (users ex_state) 2 = Some ex_imaam"
    by (simp add: example_defs findVerifiedImaamById_def)
  have h2': "findVerifiedImaamById (users ex_pending) 2 = Some ex_imaam"
    by (simp add: ex_pending_val example_defs model_defs)
  obtain s1 r1 where q1: "requestConnection ex_state 100 True ex_student 2 None = (s1, r1)"
    by (cases "requestConnection ex_state 100 True ex_student 2 None")
  obtain s2 r2 where q2: "requestConnection ex_pending 101 True ex_student 2 None = (s2, r2)"
    by (cases "requestConnection ex_pending 101 True ex_student 2 None")
  have g1: "getConnection (connections ex_state) (u_id ex_student) 2 = None"
    by (simp add: example_defs getConnection_def)
  have g2: "\<exists>e. getConnection (connections ex_pending) (u_id ex_student) 2 = Some e \<and>
              (status e = Accepted \<or> status e = Pending)"
    by (simp add: ex_pending_val example_defs model_defs)
  have "\<exists>c. connections s1 = connections ex_state @ [c] \<and> status c = Pending"
    using C5_request_guard [OF h1 h2 q1] g1
    by (auto simp: trim_str_def ex_state_def split: if_splits)
  then have "map status (connections s1) = [Pending]"
    by (auto simp: ex_state_def)
  moreover have "\<exists>msg. r2 = Inl (AppError 400 msg)"
    using C5_request_guard [OF h1 h2' q2] g2 by blast
  ultimately show ?thesis
    using h1 h2 q1 q2 by simp
qed

section \<open>Every request is a step of the collection\<close>

lemma createNotification_frame:
  "createNotification s now ok d = Inr (s', n) \<Longrightarrow>
     connections s' = connections s \<and> nextId s \<le> nextId s'"
  by (auto simp: createNotification_def Let_def split: option.splits if_splits)

lemma requestConnection_shape:
  assumes "requestConnection s now ok u i m = (s', r)"
  shows "s' = s \<or>
     (\<exists>s1 c. existingConnectionError ''Already connected to this Imaam''
                (getConnection (connections s) (u_id u) i) = None \<and>
        Connection_create s now (u_id u) i StudentTeacher
          (Some (case m of None \<Rightarrow> [] | Some x \<Rightarrow> x)) Pending = Inr (s1, c) \<and>
        connections s' = connections s1 \<and> nextId s1 \<le> nextId s')"
  using assms
  by (auto simp: requestConnection_def Let_def
      split: option.split_asm sum.split_asm if_split_asm dest: createNotification_frame)

lemma followUser_shape:
  assumes "followUser s now u t = (s', r)"
  shows "s' = s \<or>
     (\<exists>c. existingConnectionError ''Already following this user''
              (find (samePair (u_id u) t) (connections s)) = None \<and>
        Connection_create s now (u_id u) t Peer None Pending = Inr (s', c))"
  using assms
  by (auto simp: followUser_def Let_def
      split: option.split_asm sum.split_asm if_split_asm)

lemma acceptConnection_shape:
  assumes "acceptConnection s now ok u cid = (s', r)"
  shows "s' = s \<or>
     (\<exists>c s1 c'. findPendingFor (connections s) cid (u_id u) = Some c \<and>
        accept s now c = Inr (s1, c') \<and>
        connections s' = connections s1 \<and> nextId s1 \<le> nextId s')"
  using assms
  by (auto simp: acceptConnection_def Let_def inc_connectionsCount_dropped
      split: option.split_asm sum.split_asm if_split_asm dest: createNotification_frame)

lemma rejectConnection_shape:
  assumes "rejectConnection s now u cid = (s', r)"
  shows "s' = s \<or>
     (\<exists>c c'. findPendingFor (connections s) cid (u_id u) = Some c \<and>
        reject s now c = Inr (s', c'))"
  using assms
  by (auto simp: rejectConnection_def Let_def
      split: option.split_asm sum.split_asm if_split_asm)

lemma requestConnection_step:
  assumes "requestConnection s now ok u i m = (s', r)"
  shows "ledger_step s s'"
proof -
  let ?x = "Some (case m of None \<Rightarrow> [] | Some x \<Rightarrow> x)"
  let ?g = "existingConnectionError ''Already connected to this Imaam''
              (getConnection (connections s) (u_id u) i)"
  consider (same) "s' = s"
    | (ins) s1 c where "?g = None"
        "Connection_create s now (u_id u) i StudentTeacher ?x Pending = Inr (s1, c)"
        "connections s' = connections s1" "nextId s1 \<le> nextId s'"
    using requestConnection_shape [OF assms] by blast
  then show ?thesis
  proof cases
    case same
    then show ?thesis by (simp add: ledger_step.unchanged)
  next
    case ins
    note e = Connection_create_Inr [OF ins(2)]
    show ?thesis
    proof (rule ledger_step.inserted [where c = c])
      show "connections s' = connections s @ [c]" using ins(3) e(1) by simp
      show "c_id c = nextId s" by (rule e(5))
      show "nextId s < nextId s'" using ins(4) e(4) by simp
      show "status c = Pending" by (rule e(8))
      show "requester c \<noteq> recipient c" using e(6,7,12) by simp
      show "find (\<lambda>d. requester d = requester c \<and> recipient d = recipient c) (connections s) = None"
        using e(6,7,13) by simp
      show "existingConnectionError ''Already connected to this Imaam''
              (find (samePair (requester c) (recipient c)) (connections s)) = None"
        using ins(1) e(6,7) by (simp add: getConnection_def)
    qed
  qed
qed

lemma followUser_step:
  assumes "followUser s now u t = (s', r)"
  shows "ledger_step s s'"
proof -
  let ?g = "existingConnectionError ''Already following this user''
              (find (samePair (u_id u) t) (connections s))"
  consider (same) "s' = s"
    | (ins) c where "?g = None"
        "Connection_create s now (u_id u) t Peer None Pending = Inr (s', c)"
    using followUser_shape [OF assms] by blast
  then show ?thesis
  proof cases
    case same
    then show ?thesis by (simp add: ledger_step.unchanged)
  next
    case ins
    note e = Connection_create_Inr [OF ins(2)]
    show ?thesis
    proof (rule ledger_step.inserted [where c = c])
      show "connections s' = connections s @ [c]" by (rule e(1))
      show "c_id c = nextId s" by (rule e(5))
      show "nextId s < nextId s'" using e(4) by simp
      show "status c = Pending" by (rule e(8))
      show "requester c \<noteq> recipient c" using e(6,7,12) by simp
      show "find (\<lambda>d. requester d = requester c \<and> recipient d = recipient c) (connections s) = None"
        using e(6,7,13) by simp
      show "existingConnectionError ''Already following this user''
              (find (samePair (requester c) (recipient c)) (connections s)) = None"
        using ins(1) e(6,7) by simp
    qed
  qed
qed

lemma findPendingFor_SomeD:
  "findPendingFor cs cid uid = Some c \<Longrightarrow>
     c \<in> set cs \<and> c_id c = cid \<and> recipient c = uid \<and> status c = Pending"
  by (auto simp: findPendingFor_def dest: find_SomeD)

lemma acceptConnection_step:
  assumes "acceptConnection s now ok u cid = (s', r)"
  shows "ledger_step s s'"
proof -
  consider (same) "s' = s"
    | (upd) c s1 c' where "findPendingFor (connections s) cid (u_id u) = Some c"
        "accept s now c = Inr (s1, c')"
        "connections s' = connections s1" "nextId s1 \<le> nextId s'"
    using acceptConnection_shape [OF assms] by blast
  then show ?thesis
  proof cases
    case same
    then show ?thesis by (simp add: ledger_step.unchanged)
  next
    case upd
    note f = findPendingFor_SomeD [OF upd(1)]
    note a = accept_Inr [OF upd(2)]
    show ?thesis
    proof (rule ledger_step.updated [where c = c and c' = c'])
      show "c \<in> set (connections s)" "status c = Pending" using f by simp_all
      show "c_id c' = c_id c" "requester c' = requester c" "recipient c' = recipient c"
        using a(1) by simp_all
      show "status c' = Accepted \<or> status c' = Rejected" using a(1) by simp
      show "connections s' = map (\<lambda>d. if c_id d = c_id c then c' else d) (connections s)"
        using upd(3) a(2) by simp
      show "nextId s \<le> nextId s'" using upd(4) a(5) by simp
    qed
  qed
qed

lemma rejectConnection_step:
  assumes "rejectConnection s now u cid = (s', r)"
  shows "ledger_step s s'"
proof -
  consider (same) "s' = s"
    | (upd) c c' where "findPendingFor (connections s) cid (u_id u) = Some c"
        "reject s now c = Inr (s', c')"
    using rejectConnection_shape [OF assms] by blast
  then show ?thesis
  proof cases
    case same
    then show ?thesis by (simp add: ledger_step.unchanged)
  next
    case upd
    note f = findPendingFor_SomeD [OF upd(1)]
    note a = reject_Inr [OF upd(2)]
    show ?thesis
    proof (rule ledger_step.updated [where c = c and c' = c'])
      show "c \<in> set (connections s)" "status c = Pending" using f by simp_all
      show "c_id c' = c_id c" "requester c' = requester c" "recipient c' = recipient c"
        using a(1) by simp_all
      show "status c' = Accepted \<or> status c' = Rejected" using a(1) by simp
      show "connections s' = map (\<lambda>d. if c_id d = c_id c then c' else d) (connections s)"
        by (rule a(2))
      show "nextId s \<le> nextId s'" using a(5) by simp
    qed
  qed
qed

lemma unfollowUser_cases:
  assumes "unfollowUser s u t = (s', r)"
  shows "(find (\<lambda>c. samePair (u_id u) t c \<and> status c = Accepted) (connections s) = None \<and>
            s' = s \<and> r = Inl (AppError 404 ''Not following this user'')) \<or>
         (\<exists>c. find (\<lambda>c. samePair (u_id u) t c \<and> status c = Accepted) (connections s) = Some c \<and>
              s' = s\<lparr>connections := remove1 c (connections s), users := users s\<rparr> \<and>
              r = Inr \<lparr>code = 200, body = okBody ''Unfollowed successfully'' None\<rparr>)"
  using assms
  by (auto simp: unfollowUser_def findOneAndDelete_def Let_def inc_connectionsCount_dropped
      split: option.splits)

lemma unfollowUser_step:
  assumes "unfollowUser s u t = (s', r)"
  shows "ledger_step s s'"
  using unfollowUser_cases [OF assms]
proof (elim disjE exE conjE)
  assume "s' = s"
  then show ?thesis by (simp add: ledger_step.unchanged)
next
  fix c
  assume f: "find (\<lambda>c. samePair (u_id u) t c \<and> status c = Accepted) (connections s) = Some c"
    and s': "s' = s\<lparr>connections := remove1 c (connections s), users := users s\<rparr>"
  from find_SomeD [OF f] have "c \<in> set (connections s)" "status c = Accepted" by simp_all
  then show ?thesis using s' by (auto intro: ledger_step.deleted [where c = c])
qed

lemma handle_step: "handle s r = (s', x) \<Longrightarrow> ledger_step s s'"
proof (cases r)
  case (ReqAcceptConnection now ok u cid)
  assume h: "handle s r = (s', x)"
  show ?thesis
  proof (cases "authorize [Imaam] u")
    case None
    with h ReqAcceptConnection show ?thesis by (auto dest: acceptConnection_step)
  next
    case (Some e)
    with h ReqAcceptConnection show ?thesis by (auto intro: ledger_step.unchanged)
  qed
next
  case (ReqRejectConnection now u cid)
  assume h: "handle s r = (s', x)"
  show ?thesis
  proof (cases "authorize [Imaam] u")
    case None
    with h ReqRejectConnection show ?thesis by (auto dest: rejectConnection_step)
  next
    case (Some e)
    with h ReqRejectConnection show ?thesis by (auto intro: ledger_step.unchanged)
  qed
qed (auto dest: requestConnection_step followUser_step unfollowUser_step)

section \<open>The invariants are kept\<close>

lemma ledger_ok_empty: "connections s = [] \<Longrightarrow> ledger_ok s"
  by (simp add: ledger_ok_def)

lemma distinct_map_eqD:
  "distinct (map f xs) \<Longrightarrow> x \<in> set xs \<Longrightarrow> y \<in> set xs \<Longrightarrow> f x = f y \<Longrightarrow> x = y"
  by (auto simp: distinct_map dest: inj_onD)

lemma distinct_map_remove1: "distinct (map f xs) \<Longrightarrow> distinct (map f (remove1 x xs))"
proof -
  assume d: "distinct (map f xs)"
  then have "distinct (remove1 x xs)" by (simp add: distinct_map)
  moreover have "inj_on f (set (remove1 x xs))"
    using d by (auto simp: distinct_map intro: inj_on_diff)
  ultimately show ?thesis by (simp add: distinct_map)
qed

lemma samePair_keys: "samePair a b y \<longleftrightarrow> pairKey y = (a, b) \<or> pairKey y = (b, a)"
  by (auto simp: samePair_def pairKey_def)

lemma samePair_sym:
  "samePair (requester x) (recipient x) y \<longleftrightarrow> samePair (requester y) (recipient y) x"
  by (auto simp: samePair_def)

lemma find_Some_ex: "y \<in> set xs \<Longrightarrow> P y \<Longrightarrow> \<exists>e. find P xs = Some e"
  by (cases "find P xs") (auto simp: find_None_iff2)

text \<open>A live document of the pair of a freshly inserted one cannot have been stored.\<close>

lemma inserted_no_live:
  assumes keys: "distinct (map pairKey cs)"
    and nodup: "find (\<lambda>d. requester d = a \<and> recipient d = b) cs = None"
    and guard: "existingConnectionError msg (find (samePair a b) cs) = None"
    and y: "y \<in> set cs" "samePair a b y"
  shows "\<not> live y"
proof -
  from find_Some_ex [of y cs "samePair a b"] y obtain e where e: "find (samePair a b) cs = Some e" by blast
  from find_SomeD [OF e] have e_in: "e \<in> set cs" and e_pair: "samePair a b e" by simp_all
  have e_dead: "\<not> live e"
    using guard e by (auto simp: existingConnectionError_def live_def split: if_splits)
  have "pairKey y \<noteq> (a, b)" "pairKey e \<noteq> (a, b)"
    using nodup y(1) e_in by (auto simp: find_None_iff2 pairKey_def)
  then have "pairKey y = pairKey e"
    using y(2) e_pair by (auto simp: samePair_keys)
  then have "y = e"
    using keys y(1) e_in by (auto dest: distinct_map_eqD)
  with e_dead show ?thesis by simp
qed

lemma step_keeps_ledger_ok:
  assumes ok: "ledger_ok s" and st: "ledger_step s s'"
  shows "ledger_ok s'"
  using st
proof (cases rule: ledger_step.cases)
  case unchanged
  then show ?thesis using ok by (auto simp: ledger_ok_def)
next
  case (inserted c msg)
  let ?cs = "connections s"
  have ids: "distinct (map c_id ?cs)" and keys: "distinct (map pairKey ?cs)"
    and bound: "\<forall>d\<in>set ?cs. c_id d < nextId s \<and> requester d \<noteq> recipient d"
    and uniq: "\<forall>x\<in>set ?cs. \<forall>y\<in>set ?cs.
        live x \<and> live y \<and> samePair (requester x) (recipient x) y \<longrightarrow> x = y"
    using ok by (simp_all add: ledger_ok_def)
  have fresh: "c_id c \<notin> c_id ` set ?cs"
    using bound inserted(2) by auto
  have newkey: "pairKey c \<notin> pairKey ` set ?cs"
    using inserted(6) by (auto simp: find_None_iff2 pairKey_def)
  have dead: "\<And>y. y \<in> set ?cs \<Longrightarrow> samePair (requester c) (recipient c) y \<Longrightarrow> \<not> live y"
    using inserted_no_live [OF keys inserted(6) inserted(7)] by blast
  have "distinct (map c_id (connections s'))"
    using ids fresh inserted(1) by simp
  moreover have "distinct (map pairKey (connections s'))"
    using keys newkey inserted(1) by simp
  moreover have "\<forall>d\<in>set (connections s'). c_id d < nextId s' \<and> requester d \<noteq> recipient d"
    using bound inserted(1,2,3,5) by auto
  moreover have "\<forall>x\<in>set (connections s'). \<forall>y\<in>set (connections s').
        live x \<and> live y \<and> samePair (requester x) (recipient x) y \<longrightarrow> x = y"
  proof (intro ballI impI)
    fix x y
    assume x: "x \<in> set (connections s')" and y: "y \<in> set (connections s')"
      and l: "live x \<and> live y \<and> samePair (requester x) (recipient x) y"
    show "x = y"
    proof (cases "x = c")
      case True
      show ?thesis
      proof (cases "y = c")
        case True
        with \<open>x = c\<close> show ?thesis by simp
      next
        case False
        then have "y \<in> set ?cs" using y inserted(1) by simp
        with dead [of y] l True show ?thesis by simp
      qed
    next
      case False
      then have xin: "x \<in> set ?cs" using x inserted(1) by simp
      show ?thesis
      proof (cases "y = c")
        case True
        have "samePair (requester c) (recipient c) x"
          using l True samePair_sym [of x c] by simp
        with dead [OF xin] l show ?thesis by simp
      next
        case False
        then have "y \<in> set ?cs" using y inserted(1) by simp
        with xin uniq l show ?thesis by blast
      qed
    qed
  qed
  ultimately show ?thesis by (simp add: ledger_ok_def)
next
  case (updated c c')
  let ?cs = "connections s"
  let ?f = "\<lambda>d. if c_id d = c_id c then c' else d"
  have ids: "distinct (map c_id ?cs)" and keys: "distinct (map pairKey ?cs)"
    and bound: "\<forall>d\<in>set ?cs. c_id d < nextId s \<and> requester d \<noteq> recipient d"
    and uniq: "\<forall>x\<in>set ?cs. \<forall>y\<in>set ?cs.
        live x \<and> live y \<and> samePair (requester x) (recipient x) y \<longrightarrow> x = y"
    using ok by (simp_all add: ledger_ok_def)
  have only: "\<And>d. d \<in> set ?cs \<Longrightarrow> c_id d = c_id c \<Longrightarrow> d = c"
    using ids updated(1) by (auto dest: distinct_map_eqD)
  have f_id: "\<And>d. c_id (?f d) = c_id d" using updated(3) by simp
  have f_req: "\<And>d. d \<in> set ?cs \<Longrightarrow> requester (?f d) = requester d \<and> recipient (?f d) = recipient d"
    using only updated(4,5) by auto
  have f_key: "\<And>d. d \<in> set ?cs \<Longrightarrow> pairKey (?f d) = pairKey d"
    using f_req by (simp add: pairKey_def)
  have f_live: "\<And>d. d \<in> set ?cs \<Longrightarrow> live (?f d) \<Longrightarrow> live d"
    using only updated(2) by (auto simp: live_def split: if_splits)
  have m1: "map c_id (connections s') = map c_id ?cs"
    using updated(7) f_id by (simp add: comp_def)
  have m2: "map pairKey (connections s') = map pairKey ?cs"
    using updated(7) f_key by (simp add: comp_def cong: map_cong)
  have "distinct (map c_id (connections s'))" using ids m1 by simp
  moreover have "distinct (map pairKey (connections s'))" using keys m2 by simp
  moreover have "\<forall>d\<in>set (connections s'). c_id d < nextId s' \<and> requester d \<noteq> recipient d"
  proof
    fix d assume "d \<in> set (connections s')"
    then obtain d0 where d0: "d0 \<in> set ?cs" "d = ?f d0" using updated(7) by auto
    have "c_id d = c_id d0" using d0(2) f_id by simp
    moreover have "requester d = requester d0 \<and> recipient d = recipient d0"
      using d0 f_req by simp
    ultimately show "c_id d < nextId s' \<and> requester d \<noteq> recipient d"
      using bound d0(1) updated(8) by fastforce
  qed
  moreover have "\<forall>x\<in>set (connections s'). \<forall>y\<in>set (connections s').
        live x \<and> live y \<and> samePair (requester x) (recipient x) y \<longrightarrow> x = y"
  proof (intro ballI impI)
    fix x y
    assume x: "x \<in> set (connections s')" and y: "y \<in> set (connections s')"
      and l: "live x \<and> live y \<and> samePair (requester x) (recipient x) y"
    obtain x0 where x0: "x0 \<in> set ?cs" "x = ?f x0" using x updated(7) by auto
    obtain y0 where y0: "y0 \<in> set ?cs" "y = ?f y0" using y updated(7) by auto
    have "live x0" "live y0" using f_live x0 y0 l by blast+
    moreover have "samePair (requester x0) (recipient x0) y0"
      using l f_req [OF x0(1)] f_req [OF y0(1)] x0(2) y0(2)
      by (simp add: samePair_def)
    ultimately have "x0 = y0" using uniq x0(1) y0(1) by blast
    then show "x = y" using x0(2) y0(2) by simp
  qed
  ultimately show ?thesis by (simp add: ledger_ok_def)
next
  case (deleted c)
  have sub: "set (connections s') \<subseteq> set (connections s)"
    using deleted(3) by (simp add: set_remove1_subset)
  have "distinct (map c_id (connections s'))" "distinct (map pairKey (connections s'))"
    using ok deleted(3) by (simp_all add: ledger_ok_def distinct_map_remove1)
  moreover have "\<forall>d\<in>set (connections s'). c_id d < nextId s' \<and> requester d \<noteq> recipient d"
    using ok sub deleted(4) by (fastforce simp: ledger_ok_def)
  moreover have "\<forall>x\<in>set (connections s'). \<forall>y\<in>set (connections s').
        live x \<and> live y \<and> samePair (requester x) (recipient x) y \<longrightarrow> x = y"
    using ok sub unfolding ledger_ok_def by blast
  ultimately show ?thesis by (simp add: ledger_ok_def)
qed

lemma step_ok: "ledger_ok s \<Longrightarrow> ledger_ok (step s r)"
  using handle_step [of s r] step_keeps_ledger_ok
  by (cases "handle s r") (auto simp: step_def)

lemma run_Nil: "run s [] = s"
  by (simp add: run_def)

lemma run_Cons: "run s (r # rs) = run (step s r) rs"
  by (simp add: run_def)

lemma run_snoc: "run s (rs @ [r]) = step (run s rs) r"
  by (simp add: run_def)

lemma run_ok: "ledger_ok s \<Longrightarrow> ledger_ok (run s rs)"
  by (induction rs arbitrary: s) (simp_all add: run_Nil run_Cons step_ok)

section \<open>Writes under concurrent requests\<close>

lemma save_paths_Inr:
  assumes "save_paths s c b = Inr s'"
  shows "connections s' =
           map (\<lambda>d. if c_id d = c_id c
                    then d\<lparr>status := status c,
                           acceptedAt := (if b then acceptedAt c else acceptedAt d),
                           lastInteraction := lastInteraction c\<rparr>
                    else d) (connections s)"
    and "users s' = users s" and "notifications s' = notifications s"
    and "nextId s' = nextId s"
  using assms
  by (auto simp: save_paths_def connection_post_save_id split: option.splits if_splits)

lemma requestConnection_write_shape:
  assumes "requestConnection_write s now ok u i m = (s', r)"
  shows "s' = s \<or>
     (\<exists>s1 c. Connection_create s now (u_id u) i StudentTeacher
          (Some (case m of None \<Rightarrow> [] | Some x \<Rightarrow> x)) Pending = Inr (s1, c) \<and>
        connections s' = connections s1 \<and> nextId s1 \<le> nextId s')"
  using assms
  by (auto simp: requestConnection_write_def
      split: option.split_asm sum.split_asm if_split_asm dest: createNotification_frame)

lemma followUser_write_shape:
  assumes "followUser_write s now u t = (s', r)"
  shows "s' = s \<or> (\<exists>c. Connection_create s now (u_id u) t Peer None Pending = Inr (s', c))"
  using assms
  by (auto simp: followUser_write_def split: sum.split_asm)

lemma acceptConnection_write_shape:
  assumes "acceptConnection_write s now ok u c = (s', r)"
  shows "s' = s \<or>
     (\<exists>s1. save_paths s (c\<lparr>status := Accepted, acceptedAt := Some now, lastInteraction := now\<rparr>)
               True = Inr s1 \<and>
        connections s' = connections s1 \<and> nextId s1 \<le> nextId s')"
  using assms
  by (auto simp: acceptConnection_write_def Let_def inc_connectionsCount_dropped
      split: sum.split_asm dest: createNotification_frame)

lemma rejectConnection_write_shape:
  assumes "rejectConnection_write s now c = (s', r)"
  shows "s' = s \<or>
     save_paths s (c\<lparr>status := Rejected, lastInteraction := now\<rparr>) False = Inr s'"
  using assms
  by (auto simp: rejectConnection_write_def Let_def split: sum.split_asm)

lemma created_step:
  assumes c: "Connection_create s now a b ty msg Pending = Inr (s1, c)"
    and s': "connections s' = connections s1" "nextId s1 \<le> nextId s'"
  shows "store_step s s'"
proof (rule store_step.created [where c = c])
  note e = Connection_create_Inr [OF c]
  show "connections s' = connections s @ [c]" using s'(1) e(1) by simp
  show "c_id c = nextId s" by (rule e(5))
  show "nextId s < nextId s'" using s'(2) e(4) by simp
  show "status c = Pending" by (rule e(8))
  show "requester c \<noteq> recipient c" using e(6,7,12) by simp
  show "find (\<lambda>d. requester d = requester c \<and> recipient d = recipient c) (connections s) = None"
    using e(6,7,13) by simp
qed

lemma saved_step:
  assumes sv: "save_paths s c b = Inr s1" and st: "status c = Accepted \<or> status c = Rejected"
    and s': "connections s' = connections s1" "nextId s1 \<le> nextId s'"
  shows "store_step s s'"
proof (rule store_step.saved [where st = "status c" and k = "c_id c"
      and a = "\<lambda>d. if b then acceptedAt c else acceptedAt d" and t = "lastInteraction c"])
  note e = save_paths_Inr [OF sv]
  show "status c = Accepted \<or> status c = Rejected" by (rule st)
  show "connections s' =
      map (\<lambda>d. if c_id d = c_id c
               then d\<lparr>status := status c,
                      acceptedAt := if b then acceptedAt c else acceptedAt d,
                      lastInteraction := lastInteraction c\<rparr>
               else d) (connections s)"
    using s'(1) e(1) by simp
  show "nextId s \<le> nextId s'" using s'(2) e(4) by simp
qed

lemma writePhase_step:
  assumes "writePhase s w = (s', x)"
  shows "store_step s s'"
proof (cases w)
  case (WRequestConnection now ok u i m)
  with assms have "requestConnection_write s now ok u i m = (s', x)" by simp
  from requestConnection_write_shape [OF this] show ?thesis
    by (auto intro: store_step.kept created_step)
next
  case (WFollowUser now u t)
  with assms have "followUser_write s now u t = (s', x)" by simp
  from followUser_write_shape [OF this] show ?thesis
    by (auto intro: store_step.kept created_step)
next
  case (WAcceptConnection now ok u c)
  with assms have "acceptConnection_write s now ok u c = (s', x)" by simp
  from acceptConnection_write_shape [OF this] show ?thesis
  proof (elim disjE exE conjE)
    assume "s' = s" then show ?thesis by (simp add: store_step.kept)
  next
    fix s1
    assume sv: "save_paths s
        (c\<lparr>status := Accepted, acceptedAt := Some now, lastInteraction := now\<rparr>) True = Inr s1"
      and s': "connections s' = connections s1" "nextId s1 \<le> nextId s'"
    show ?thesis by (rule saved_step [OF sv _ s']) simp
  qed
next
  case (WRejectConnection now c)
  with assms have "rejectConnection_write s now c = (s', x)" by simp
  from rejectConnection_write_shape [OF this] show ?thesis
  proof
    assume "s' = s" then show ?thesis by (simp add: store_step.kept)
  next
    assume sv: "save_paths s (c\<lparr>status := Rejected, lastInteraction := now\<rparr>) False = Inr s'"
    show ?thesis by (rule saved_step [OF sv]) simp_all
  qed
next
  case (WUnfollowUser u t)
  with assms have un: "unfollowUser s u t = (s', x)" by simp
  from unfollowUser_cases [OF un] show ?thesis
  proof (elim disjE exE conjE)
    assume "s' = s" then show ?thesis by (simp add: store_step.kept)
  next
    fix c
    assume f: "find (\<lambda>c. samePair (u_id u) t c \<and> status c = Accepted) (connections s) = Some c"
      and s': "s' = s\<lparr>connections := remove1 c (connections s), users := users s\<rparr>"
    from find_SomeD [OF f] have "c \<in> set (connections s)" by simp
    then show ?thesis using s' by (auto intro: store_step.removed [where c = c])
  qed
qed


lemma step_keeps_store_ok:
  assumes ok: "store_ok s" and st: "store_step s s'"
  shows "store_ok s'"
  using st
proof (cases rule: store_step.cases)
  case kept
  then show ?thesis using ok by (auto simp: store_ok_def)
next
  case (created c)
  let ?cs = "connections s"
  have ids: "distinct (map c_id ?cs)" and keys: "distinct (map pairKey ?cs)"
    and bound: "\<forall>d\<in>set ?cs. c_id d < nextId s \<and> requester d \<noteq> recipient d"
    using ok by (simp_all add: store_ok_def)
  have fresh: "c_id c \<notin> c_id ` set ?cs"
    using bound created(2) by auto
  have newkey: "pairKey c \<notin> pairKey ` set ?cs"
    using created(6) by (auto simp: find_None_iff2 pairKey_def)
  have "distinct (map c_id (connections s'))"
    using ids fresh created(1) by simp
  moreover have "distinct (map pairKey (connections s'))"
    using keys newkey created(1) by simp
  moreover have "\<forall>d\<in>set (connections s'). c_id d < nextId s' \<and> requester d \<noteq> recipient d"
    using bound created(1,2,3,5) by auto
  ultimately show ?thesis by (simp add: store_ok_def)
next
  case (saved st k t a)
  let ?cs = "connections s"
  let ?f = "\<lambda>d. if c_id d = k then d\<lparr>status := st, acceptedAt := a d, lastInteraction := t\<rparr> else d"
  have ids: "distinct (map c_id ?cs)" and keys: "distinct (map pairKey ?cs)"
    and bound: "\<forall>d\<in>set ?cs. c_id d < nextId s \<and> requester d \<noteq> recipient d"
    using ok by (simp_all add: store_ok_def)
  have m1: "map c_id (connections s') = map c_id ?cs"
    using saved(2) by (simp add: comp_def)
  have m2: "map pairKey (connections s') = map pairKey ?cs"
    using saved(2) by (simp add: comp_def pairKey_def)
  have "\<forall>d\<in>set (connections s'). c_id d < nextId s' \<and> requester d \<noteq> recipient d"
  proof
    fix d assume "d \<in> set (connections s')"
    then obtain d0 where d0: "d0 \<in> set ?cs" "d = ?f d0" using saved(2) by auto
    have "c_id d = c_id d0 \<and> requester d = requester d0 \<and> recipient d = recipient d0"
      using d0(2) by simp
    then show "c_id d < nextId s' \<and> requester d \<noteq> recipient d"
      using bound d0(1) saved(3) by fastforce
  qed
  then show ?thesis using ids keys m1 m2 by (simp add: store_ok_def)
next
  case (removed c)
  have sub: "set (connections s') \<subseteq> set (connections s)"
    using removed(2) by (simp add: set_remove1_subset)
  have "distinct (map c_id (connections s'))" "distinct (map pairKey (connections s'))"
    using ok removed(2) by (simp_all add: store_ok_def distinct_map_remove1)
  moreover have "\<forall>d\<in>set (connections s'). c_id d < nextId s' \<and> requester d \<noteq> recipient d"
    using ok sub removed(3) by (fastforce simp: store_ok_def)
  ultimately show ?thesis by (simp add: store_ok_def)
qed

lemma store_ok_empty: "connections s = [] \<Longrightarrow> store_ok s"
  by (simp add: store_ok_def)

lemma istep_store:
  "store (istep k e) = store k \<or>
   (\<exists>w x. writePhase (store k) w = (store (istep k e), x))"
proof (cases e)
  case (Lookup r)
  then show ?thesis by (cases "lookupPhase (store k) r") simp_all
next
  case (Write i)
  show ?thesis
  proof (cases "i < length (inflight k)")
    case True
    then have "store (istep k e) = fst (writePhase (store k) (inflight k ! i))"
      using Write by simp
    then have "writePhase (store k) (inflight k ! i)
        = (store (istep k e), snd (writePhase (store k) (inflight k ! i)))"
      by simp
    then show ?thesis by blast
  next
    case False
    with Write show ?thesis by simp
  qed
qed

lemma istep_store_step: "store_step (store k) (store (istep k e))"
  using istep_store [of k e] by (auto intro: store_step.kept dest: writePhase_step)

lemma irun_Nil: "irun k [] = k"
  by (simp add: irun_def)

lemma irun_snoc: "irun k (es @ [e]) = istep (irun k es) e"
  by (simp add: irun_def)

lemma irun_append: "irun k (es @ fs) = irun (irun k es) fs"
  by (simp add: irun_def)

lemma irun_ok: "store_ok (store k) \<Longrightarrow> store_ok (store (irun k es))"
proof (induction es rule: rev_induct)
  case Nil
  then show ?case by (simp add: irun_Nil)
next
  case (snoc e es)
  then show ?case
    using istep_store_step [of "irun k es" e]
    by (simp add: irun_snoc step_keeps_store_ok)
qed

section \<open>One at a time is one of the interleavings\<close>

lemma save_paths_fresh_copy:
  assumes ids: "distinct (map c_id (connections s))" and c: "c \<in> set (connections s)"
    and c': "c_id c' = c_id c" "requester c' = requester c" "recipient c' = recipient c"
      "ctype c' = ctype c" "message c' = message c" "createdAt c' = createdAt c"
      "connection.more c' = connection.more c"
    and a: "b \<or> acceptedAt c' = acceptedAt c"
  shows "save_paths s c' b = Connection_save s c'"
proof -
  have found: "find (\<lambda>d. c_id d = c_id c') (connections s) \<noteq> None"
    using c c'(1) by (auto simp: find_None_iff2)
  have "map (\<lambda>d. if c_id d = c_id c'
                 then d\<lparr>status := status c',
                        acceptedAt := (if b then acceptedAt c' else acceptedAt d),
                        lastInteraction := lastInteraction c'\<rparr>
                 else d) (connections s)
      = map (\<lambda>d. if c_id d = c_id c' then c' else d) (connections s)"
  proof (rule map_cong [OF refl])
    fix d assume d: "d \<in> set (connections s)"
    show "(if c_id d = c_id c'
           then d\<lparr>status := status c',
                  acceptedAt := (if b then acceptedAt c' else acceptedAt d),
                  lastInteraction := lastInteraction c'\<rparr>
           else d) = (if c_id d = c_id c' then c' else d)"
    proof (cases "c_id d = c_id c'")
      case False
      then show ?thesis by simp
    next
      case True
      then have "d = c" using ids d c c'(1) by (auto dest: distinct_map_eqD)
      then show ?thesis using True c' a by (cases b) (simp_all add: connection.equality)
    qed
  qed
  then show ?thesis using found
    by (simp add: save_paths_def Connection_save_def split: option.splits)
qed

lemma handle_split:
  assumes ids: "distinct (map c_id (connections s))"
  shows "handle s r = (case lookupPhase s r of Inl e \<Rightarrow> (s, Inl e) | Inr w \<Rightarrow> writePhase s w)"
proof (cases r)
  case (ReqRequestConnection now ok u i m)
  then show ?thesis
    by (simp add: requestConnection_def requestConnection_lookup_def
        requestConnection_write_def Let_def split: option.splits)
next
  case (ReqFollowUser now u t)
  then show ?thesis
    by (simp add: followUser_def followUser_lookup_def followUser_write_def Let_def
        split: option.splits)
next
  case (ReqAcceptConnection now ok u cid)
  show ?thesis
  proof (cases "authorize [Imaam] u")
    case (Some e)
    with ReqAcceptConnection show ?thesis by simp
  next
    case None
    show ?thesis
    proof (cases "findPendingFor (connections s) cid (u_id u)")
      case nf: None
      with None ReqAcceptConnection show ?thesis by (simp add: acceptConnection_def)
    next
      case (Some c)
      have c: "c \<in> set (connections s)" using findPendingFor_SomeD [OF Some] by simp
      have "save_paths s (c\<lparr>status := Accepted, acceptedAt := Some now, lastInteraction := now\<rparr>)
              True
            = Connection_save s (c\<lparr>status := Accepted, acceptedAt := Some now,
                                    lastInteraction := now\<rparr>)"
        by (rule save_paths_fresh_copy [OF ids c]) simp_all
      with None Some ReqAcceptConnection show ?thesis
        by (simp add: acceptConnection_def acceptConnection_write_def accept_def Let_def
            split: sum.splits)
    qed
  qed
next
  case (ReqRejectConnection now u cid)
  show ?thesis
  proof (cases "authorize [Imaam] u")
    case (Some e)
    with ReqRejectConnection show ?thesis by simp
  next
    case None
    show ?thesis
    proof (cases "findPendingFor (connections s) cid (u_id u)")
      case nf: None
      with None ReqRejectConnection show ?thesis by (simp add: rejectConnection_def)
    next
      case (Some c)
      have c: "c \<in> set (connections s)" using findPendingFor_SomeD [OF Some] by simp
      have "save_paths s (c\<lparr>status := Rejected, lastInteraction := now\<rparr>) False
            = Connection_save s (c\<lparr>status := Rejected, lastInteraction := now\<rparr>)"
        by (rule save_paths_fresh_copy [OF ids c]) simp_all
      with None Some ReqRejectConnection show ?thesis
        by (simp add: rejectConnection_def rejectConnection_write_def reject_def Let_def
            split: sum.splits)
    qed
  qed
next
  case (ReqUnfollowUser u t)
  then show ?thesis by simp
qed

lemma istep_pair:
  assumes "distinct (map c_id (connections s))"
  shows "istep (istep \<lparr>store = s, inflight = []\<rparr> (Lookup r)) (Write 0)
           = \<lparr>store = step s r, inflight = []\<rparr>"
  using handle_split [OF assms, of r]
  by (cases "lookupPhase s r") (simp_all add: step_def)

lemma run_one_at_a_time:
  "store_ok s \<Longrightarrow>
     irun \<lparr>store = s, inflight = []\<rparr> (one_at_a_time rs) = \<lparr>store = run s rs, inflight = []\<rparr>"
proof (induction rs rule: rev_induct)
  case Nil
  show ?case by (simp add: one_at_a_time_def irun_def run_def)
next
  case (snoc r rs)
  have ok: "store_ok (run s rs)"
    using irun_ok [of "\<lparr>store = s, inflight = []\<rparr>" "one_at_a_time rs"] snoc by simp
  then have ids: "distinct (map c_id (connections (run s rs)))" by (simp add: store_ok_def)
  have "one_at_a_time (rs @ [r]) = one_at_a_time rs @ [Lookup r, Write 0]"
    by (simp add: one_at_a_time_def)
  then have "irun \<lparr>store = s, inflight = []\<rparr> (one_at_a_time (rs @ [r]))
      = istep (istep \<lparr>store = run s rs, inflight = []\<rparr> (Lookup r)) (Write 0)"
    using snoc by (simp add: irun_def)
  also have "\<dots> = \<lparr>store = step (run s rs) r, inflight = []\<rparr>"
    by (rule istep_pair [OF ids])
  finally show ?case by (simp add: run_snoc)
qed

section \<open>Documents per pair of users\<close>

lemma length_le_card: "distinct xs \<Longrightarrow> set xs \<subseteq> A \<Longrightarrow> finite A \<Longrightarrow> length xs \<le> card A"
  using distinct_card [of xs] card_mono [of A "set xs"] by simp

lemma length_le_one: "distinct xs \<Longrightarrow> (\<forall>x\<in>set xs. \<forall>y\<in>set xs. x = y) \<Longrightarrow> length xs \<le> 1"
proof (cases xs)
  case Nil
  then show ?thesis by simp
next
  case (Cons x ys)
  assume d: "distinct xs" and e: "\<forall>x\<in>set xs. \<forall>y\<in>set xs. x = y"
  have "ys = []"
  proof (cases ys)
    case Nil
    then show ?thesis .
  next
    case (Cons y zs)
    have xs: "xs = x # y # zs" using \<open>xs = x # ys\<close> Cons by simp
    have "x \<in> set xs" "y \<in> set xs" by (simp_all add: xs)
    with e have "x = y" by blast
    moreover have "x \<noteq> y" using d by (simp add: xs)
    ultimately show ?thesis by simp
  qed
  with Cons show ?thesis by simp
qed

lemma card_two: "card {x, y} \<le> 2"
  by (simp add: card_insert_if)

lemma samePair_same:
  "samePair a b x \<Longrightarrow> samePair a b y \<Longrightarrow> samePair (requester x) (recipient x) y"
  unfolding samePair_def by (elim disjE conjE) simp_all

lemma pair_bound:
  assumes keys: "distinct (map pairKey cs)"
  shows "length (filter (samePair a b) cs) \<le> 2"
proof -
  have "distinct (map pairKey (filter (samePair a b) cs))"
    using keys by (rule distinct_map_filter)
  moreover have "set (map pairKey (filter (samePair a b) cs)) \<subseteq> {(a, b), (b, a)}"
  proof
    fix k assume "k \<in> set (map pairKey (filter (samePair a b) cs))"
    then obtain c where "samePair a b c" "k = pairKey c" by auto
    then show "k \<in> {(a, b), (b, a)}"
      unfolding samePair_def pairKey_def by blast
  qed
  ultimately have "length (map pairKey (filter (samePair a b) cs)) \<le> card {(a, b), (b, a)}"
    by (intro length_le_card) simp_all
  also have "\<dots> \<le> 2" by (rule card_two)
  finally show ?thesis by simp
qed

text \<open>Handled one at a time, the requests leave at most one pending or accepted
  document per unordered pair.\<close>

lemma one_at_a_time_one_live:
  assumes "ledger_ok s"
  shows "length (filter (\<lambda>c. samePair a b c \<and> live c) (connections s)) \<le> 1"
proof -
  let ?cs = "connections s"
  have ids: "distinct (map c_id ?cs)"
    and uniq: "\<forall>x\<in>set ?cs. \<forall>y\<in>set ?cs.
        live x \<and> live y \<and> samePair (requester x) (recipient x) y \<longrightarrow> x = y"
    using assms by (simp_all add: ledger_ok_def)
  have "distinct ?cs" using ids by (simp add: distinct_map)
  then have "distinct (filter (\<lambda>c. samePair a b c \<and> live c) ?cs)" by simp
  moreover have "\<forall>x\<in>set (filter (\<lambda>c. samePair a b c \<and> live c) ?cs).
      \<forall>y\<in>set (filter (\<lambda>c. samePair a b c \<and> live c) ?cs). x = y"
  proof (intro ballI)
    fix x y
    assume "x \<in> set (filter (\<lambda>c. samePair a b c \<and> live c) ?cs)"
      and "y \<in> set (filter (\<lambda>c. samePair a b c \<and> live c) ?cs)"
    then have x: "x \<in> set ?cs" "samePair a b x" "live x"
      and y: "y \<in> set ?cs" "samePair a b y" "live y"
      by simp_all
    from samePair_same [OF x(2) y(2)] x(1,3) y(1,3) uniq show "x = y" by blast
  qed
  ultimately show ?thesis by (rule length_le_one)
qed

text \<open>Not so when two users follow each other and both lookups run before either
  insert: both documents are stored, both pending.\<close>

lemma race_two_pending:
  "map pairKey (connections (store ex_race_follows)) = [(2, 3), (3, 2)] \<and>
   map status (connections (store ex_race_follows)) = [Pending, Pending]"
  by (simp add: ex_race_follows_val ex_peer_def pairKey_def)

lemma ex_reversed_run:
  "ex_reversed = run ex_state [ReqRequestConnection 100 True ex_student 2 None,
                               ReqRejectConnection 101 ex_imaam 10,
                               ReqFollowUser 102 ex_imaam 1]"
  by (simp add: run_def ex_reversed_def ex_rejected_def ex_pending_def)

text \<open>
  C3, as stated, fails: after user 1 requests user 2, 2 rejects and 2 follows 1, the
  collection holds two documents for the pair: the rejected one from 1 to 2 and a
  pending one from 2 to 1.
\<close>

theorem C3_two_documents_counterexample:
  "ex_reversed = run ex_state [ReqRequestConnection 100 True ex_student 2 None,
                               ReqRejectConnection 101 ex_imaam 10,
                               ReqFollowUser 102 ex_imaam 1] \<and>
   map pairKey (connections ex_reversed) = [(1, 2), (2, 1)] \<and>
   map status (connections ex_reversed) = [Rejected, Pending] \<and>
   length (filter (samePair 1 2) (connections ex_reversed)) = 2"
proof -
  have "map pairKey (connections ex_reversed) = [(1, 2), (2, 1)] \<and>
        map status (connections ex_reversed) = [Rejected, Pending] \<and>
        length (filter (samePair 1 2) (connections ex_reversed)) = 2"
    by (simp add: ex_reversed_val ex_request_def ex_follow_def pairKey_def samePair_def)
  then show ?thesis by (rule conjI [OF ex_reversed_run])
qed

text \<open>
  C3, amended: in every state reached from an empty collection by request-connection,
  follow, accept, reject and unfollow, in whatever order the lookups and the writes of
  the requests interleave, at most one document exists per ordered pair (requester,
  recipient); so an unordered pair has at most two documents, one in each direction.
\<close>

theorem C3_one_document_per_ordered_pair:
  assumes "connections s0 = []"
  shows "distinct (map pairKey (connections (store (irun (start s0) es)))) \<and>
         length (filter (samePair a b) (connections (store (irun (start s0) es)))) \<le> 2"
proof -
  have "store_ok (store (start s0))"
    using assms by (simp add: start_def store_ok_empty)
  then have "store_ok (store (irun (start s0) es))" by (rule irun_ok)
  then have "distinct (map pairKey (connections (store (irun (start s0) es))))"
    by (simp add: store_ok_def)
  with pair_bound [of "connections (store (irun (start s0) es))" a b] show ?thesis by simp
qed

theorem C3_one_document_per_ordered_pair_witness:
  "connections ex_state = [] \<and>
   distinct (map pairKey (connections (store (irun (start ex_state)
     [Lookup (ReqFollowUser 100 ex_imaam 3), Lookup (ReqFollowUser 101 ex_imaam2 2),
      Write 0, Write 0])))) \<and>
   length (filter (samePair 2 3) (connections (store (irun (start ex_state)
     [Lookup (ReqFollowUser 100 ex_imaam 3), Lookup (ReqFollowUser 101 ex_imaam2 2),
      Write 0, Write 0])))) \<le> 2"
proof -
  have e: "connections ex_state = []" by (simp add: ex_state_def)
  show ?thesis
    by (rule conjI [OF e C3_one_document_per_ordered_pair [OF e]])
qed

section \<open>Status transitions\<close>

lemma transition_ok_trans:
  "transition_ok a b \<Longrightarrow> transition_ok b c \<Longrightarrow> transition_ok a c"
  by (auto simp: transition_ok_def)

lemma step_nextId: "ledger_step s s' \<Longrightarrow> nextId s \<le> nextId s'"
  by (cases rule: ledger_step.cases) auto

lemma step_back:
  assumes ok: "ledger_ok s" and st: "ledger_step s s'" and c': "c' \<in> set (connections s')"
  shows "nextId s \<le> c_id c' \<or>
         (\<exists>c\<in>set (connections s). c_id c = c_id c' \<and> transition_ok (status c) (status c'))"
  using st
proof (cases rule: ledger_step.cases)
  case unchanged
  with c' show ?thesis by (auto simp: transition_ok_def)
next
  case (inserted c msg)
  with c' show ?thesis by (auto simp: transition_ok_def)
next
  case (updated c d)
  from c' updated(7) obtain c0 where c0: "c0 \<in> set (connections s)"
    "c' = (if c_id c0 = c_id c then d else c0)" by auto
  have ids: "distinct (map c_id (connections s))" using ok by (simp add: ledger_ok_def)
  show ?thesis
  proof (cases "c_id c0 = c_id c")
    case True
    then have "c0 = c" using ids c0(1) updated(1) by (auto dest: distinct_map_eqD)
    then show ?thesis
      using c0 updated(1,2,3,6) True by (auto simp: transition_ok_def)
  next
    case False
    then show ?thesis using c0 by (auto simp: transition_ok_def)
  qed
next
  case (deleted c)
  then have "c' \<in> set (connections s)"
    using c' set_remove1_subset by fastforce
  then show ?thesis by (auto simp: transition_ok_def)
qed

lemma run_nextId: "nextId s \<le> nextId (run s rs)"
proof (induction rs rule: rev_induct)
  case Nil
  show ?case by (simp add: run_Nil)
next
  case (snoc r rs)
  have "ledger_step (run s rs) (step (run s rs) r)"
    using handle_step [of "run s rs" r] by (cases "handle (run s rs) r") (auto simp: step_def)
  from step_nextId [OF this] snoc show ?case by (simp add: run_snoc)
qed

lemma run_back:
  assumes ok: "ledger_ok s"
  shows "c' \<in> set (connections (run s rs)) \<Longrightarrow>
         nextId s \<le> c_id c' \<or>
         (\<exists>c\<in>set (connections s). c_id c = c_id c' \<and> transition_ok (status c) (status c'))"
proof (induction rs arbitrary: c' rule: rev_induct)
  case Nil
  then show ?case by (auto simp: run_Nil transition_ok_def)
next
  case (snoc r rs)
  let ?m = "run s rs"
  have okm: "ledger_ok ?m" using ok by (rule run_ok)
  have st: "ledger_step ?m (step ?m r)"
    using handle_step [of ?m r] by (cases "handle ?m r") (auto simp: step_def)
  have c': "c' \<in> set (connections (step ?m r))" using snoc.prems by (simp add: run_snoc)
  from step_back [OF okm st c'] show ?case
  proof
    assume "nextId ?m \<le> c_id c'"
    with run_nextId [of s rs] show ?thesis by simp
  next
    assume "\<exists>c\<in>set (connections ?m). c_id c = c_id c' \<and> transition_ok (status c) (status c')"
    then obtain cm where cm: "cm \<in> set (connections ?m)" "c_id cm = c_id c'"
      "transition_ok (status cm) (status c')" by blast
    from snoc.IH [OF cm(1)] cm(2,3) show ?thesis
      by (auto intro: transition_ok_trans)
  qed
qed

lemma one_at_a_time_transitions:
  assumes "connections s0 = []" and "s1 = run s0 rs1" and "s2 = run s1 rs2"
    and "c \<in> set (connections s1)" and "c' \<in> set (connections s2)" and "c_id c' = c_id c"
  shows "(status c' = status c \<or>
          (status c = Pending \<and> (status c' = Accepted \<or> status c' = Rejected))) \<and>
         (status c = Accepted \<or> status c = Rejected \<longrightarrow> status c' \<noteq> Pending)"
proof -
  have ok1: "ledger_ok s1" using assms(1,2) by (simp add: run_ok ledger_ok_empty)
  then have ids: "distinct (map c_id (connections s1))"
    and bound: "c_id c < nextId s1"
    using assms(4) by (auto simp: ledger_ok_def)
  from run_back [OF ok1, of c' rs2] assms(3,5)
  have "nextId s1 \<le> c_id c' \<or>
      (\<exists>d\<in>set (connections s1). c_id d = c_id c' \<and> transition_ok (status d) (status c'))"
    by simp
  with bound assms(6) obtain d where d: "d \<in> set (connections s1)" "c_id d = c_id c"
    "transition_ok (status d) (status c')" by auto
  have "d = c" using ids d(1,2) assms(4) by (auto dest: distinct_map_eqD)
  with d(3) show ?thesis by (auto simp: transition_ok_def)
qed


lemma race_transition_ok_trans:
  "race_transition_ok a b \<Longrightarrow> race_transition_ok b c \<Longrightarrow> race_transition_ok a c"
  by (auto simp: race_transition_ok_def)

lemma store_step_nextId: "store_step s s' \<Longrightarrow> nextId s \<le> nextId s'"
  by (cases rule: store_step.cases) auto

lemma store_step_back:
  assumes st: "store_step s s'" and c': "c' \<in> set (connections s')"
  shows "nextId s \<le> c_id c' \<or>
         (\<exists>c\<in>set (connections s). c_id c = c_id c' \<and>
            race_transition_ok (status c) (status c'))"
  using st
proof (cases rule: store_step.cases)
  case kept
  with c' show ?thesis by (auto simp: race_transition_ok_def)
next
  case (created c)
  with c' show ?thesis by (auto simp: race_transition_ok_def)
next
  case (saved st k t a)
  from c' saved(2) obtain c0 where c0: "c0 \<in> set (connections s)"
    "c' = (if c_id c0 = k then c0\<lparr>status := st, acceptedAt := a c0, lastInteraction := t\<rparr>
           else c0)"
    by auto
  have "c_id c0 = c_id c'" using c0(2) by simp
  moreover have "race_transition_ok (status c0) (status c')"
    using c0(2) saved(1) by (auto simp: race_transition_ok_def)
  ultimately show ?thesis using c0(1) by blast
next
  case (removed c)
  then have "c' \<in> set (connections s)"
    using c' set_remove1_subset by fastforce
  then show ?thesis by (auto simp: race_transition_ok_def)
qed

lemma irun_nextId: "nextId (store k) \<le> nextId (store (irun k es))"
proof (induction es rule: rev_induct)
  case Nil
  show ?case by (simp add: irun_Nil)
next
  case (snoc e es)
  from store_step_nextId [OF istep_store_step [of "irun k es" e]] snoc
  show ?case by (simp add: irun_snoc)
qed

lemma irun_back:
  "c' \<in> set (connections (store (irun k es))) \<Longrightarrow>
     nextId (store k) \<le> c_id c' \<or>
     (\<exists>c\<in>set (connections (store k)). c_id c = c_id c' \<and>
        race_transition_ok (status c) (status c'))"
proof (induction es arbitrary: c' rule: rev_induct)
  case Nil
  then show ?case by (auto simp: irun_Nil race_transition_ok_def)
next
  case (snoc e es)
  let ?m = "irun k es"
  have c': "c' \<in> set (connections (store (istep ?m e)))"
    using snoc.prems by (simp add: irun_snoc)
  from store_step_back [OF istep_store_step c'] show ?case
  proof
    assume "nextId (store ?m) \<le> c_id c'"
    with irun_nextId [of k es] show ?thesis by simp
  next
    assume "\<exists>c\<in>set (connections (store ?m)). c_id c = c_id c' \<and>
        race_transition_ok (status c) (status c')"
    then obtain cm where cm: "cm \<in> set (connections (store ?m))" "c_id cm = c_id c'"
      "race_transition_ok (status cm) (status c')" by blast
    from snoc.IH [OF cm(1)] cm(2,3) show ?thesis
      by (auto intro: race_transition_ok_trans)
  qed
qed

lemma concurrent_transitions:
  assumes "connections s0 = []" and "k1 = irun (start s0) es1" and "k2 = irun k1 es2"
    and "c \<in> set (connections (store k1))" and "c' \<in> set (connections (store k2))"
    and "c_id c' = c_id c"
  shows "race_transition_ok (status c) (status c')"
proof -
  have "store_ok (store (start s0))" using assms(1) by (simp add: start_def store_ok_empty)
  then have ok1: "store_ok (store k1)" using assms(2) by (simp add: irun_ok)
  then have ids: "distinct (map c_id (connections (store k1)))"
    and bound: "c_id c < nextId (store k1)"
    using assms(4) by (auto simp: store_ok_def)
  from irun_back [of c' k1 es2] assms(3,5)
  have "nextId (store k1) \<le> c_id c' \<or>
      (\<exists>d\<in>set (connections (store k1)). c_id d = c_id c' \<and>
         race_transition_ok (status d) (status c'))"
    by simp
  with bound assms(6) obtain d where d: "d \<in> set (connections (store k1))" "c_id d = c_id c"
    "race_transition_ok (status d) (status c')" by auto
  have "d = c" using ids d(1,2) assms(4) by (auto dest: distinct_map_eqD)
  with d(3) show ?thesis by simp
qed

lemma ex_pending_run:
  "ex_pending = run ex_state [ReqRequestConnection 100 True ex_student 2 None]"
  by (simp add: run_def ex_pending_def)

text \<open>
  C6, as stated, fails: with the request of user 1 pending, imaam 2 sends an accept and
  a reject of it; both look the document up while it is pending; the accept writes first
  and the document is accepted, then the reject writes and the same document is rejected:
  a transition from accepted to rejected.
\<close>

theorem C6_accept_reject_race_counterexample:
  "ex_pending = run ex_state [ReqRequestConnection 100 True ex_student 2 None] \<and>
   map c_id (connections (store ex_race_accepted)) = [10] \<and>
   map status (connections (store ex_race_accepted)) = [Accepted] \<and>
   inflight ex_race_accepted = [WRejectConnection 102 (ex_request Pending 100)] \<and>
   map c_id (connections (store ex_race_rejected)) = [10] \<and>
   map status (connections (store ex_race_rejected)) = [Rejected]"
proof -
  have "map c_id (connections (store ex_race_accepted)) = [10] \<and>
   map status (connections (store ex_race_accepted)) = [Accepted] \<and>
   inflight ex_race_accepted = [WRejectConnection 102 (ex_request Pending 100)] \<and>
   map c_id (connections (store ex_race_rejected)) = [10] \<and>
   map status (connections (store ex_race_rejected)) = [Rejected]"
    by (simp add: ex_race_accepted_val ex_race_rejected_val ex_request_def)
  then show ?thesis by (rule conjI [OF ex_pending_run])
qed

text \<open>
  C6, amended: take any state reached from an empty collection and any later state, and
  a document of the earlier state that still exists in the later one. When the requests
  (request-connection, follow, accept, reject, unfollow) are handled one at a time, the
  document has the same status, or was pending and is now accepted or rejected. When
  their lookups and writes interleave, it has the same status or is now accepted or
  rejected (an accept and a reject of one pending request that race can also take it
  from accepted to rejected or back); in both cases no request blocks a document, and a
  document that was accepted or rejected is never pending again.
\<close>

theorem C6_status_transitions:
  "(connections s0 = [] \<and> s1 = run s0 rs1 \<and> s2 = run s1 rs2 \<and>
    c \<in> set (connections s1) \<and> c' \<in> set (connections s2) \<and> c_id c' = c_id c \<longrightarrow>
      status c' = status c \<or>
      (status c = Pending \<and> (status c' = Accepted \<or> status c' = Rejected))) \<and>
   (connections t0 = [] \<and> k1 = irun (start t0) es1 \<and> k2 = irun k1 es2 \<and>
    d \<in> set (connections (store k1)) \<and> d' \<in> set (connections (store k2)) \<and>
    c_id d' = c_id d \<longrightarrow>
      (status d' = status d \<or> status d' = Accepted \<or> status d' = Rejected) \<and>
      (status d = Accepted \<or> status d = Rejected \<longrightarrow> status d' \<noteq> Pending))"
proof (intro conjI impI)
  assume "connections s0 = [] \<and> s1 = run s0 rs1 \<and> s2 = run s1 rs2 \<and>
    c \<in> set (connections s1) \<and> c' \<in> set (connections s2) \<and> c_id c' = c_id c"
  then show "status c' = status c \<or>
      (status c = Pending \<and> (status c' = Accepted \<or> status c' = Rejected))"
    using one_at_a_time_transitions [of s0 s1 rs1 s2 rs2 c c'] by blast
next
  assume a: "connections t0 = [] \<and> k1 = irun (start t0) es1 \<and> k2 = irun k1 es2 \<and>
    d \<in> set (connections (store k1)) \<and> d' \<in> set (connections (store k2)) \<and>
    c_id d' = c_id d"
  then have r: "race_transition_ok (status d) (status d')"
    using concurrent_transitions [of t0 k1 es1 k2 es2 d d'] by blast
  then show "status d' = status d \<or> status d' = Accepted \<or> status d' = Rejected"
    by (simp add: race_transition_ok_def)
  assume "status d = Accepted \<or> status d = Rejected"
  with r show "status d' \<noteq> Pending"
    by (auto simp: race_transition_ok_def)
qed

theorem C6_status_transitions_witness:
  "connections ex_state = [] \<and>
   ex_pending = run ex_state [ReqRequestConnection 100 True ex_student 2 None] \<and>
   ex_rejected = run ex_pending [ReqRejectConnection 101 ex_imaam 10] \<and>
   ex_request Pending 100 \<in> set (connections ex_pending) \<and>
   ex_request Rejected 101 \<in> set (connections ex_rejected) \<and>
   c_id (ex_request Rejected 101) = c_id (ex_request Pending 100) \<and>
   (status (ex_request Rejected 101) = status (ex_request Pending 100) \<or>
    (status (ex_request Pending 100) = Pending \<and>
     (status (ex_request Rejected 101) = Accepted \<or>
      status (ex_request Rejected 101) = Rejected))) \<and>
   ex_race_accepted = irun (start ex_state)
     (one_at_a_time [ReqRequestConnection 100 True ex_student 2 None] @
      [Lookup (ReqAcceptConnection 101 True ex_imaam 10),
       Lookup (ReqRejectConnection 102 ex_imaam 10), Write 0]) \<and>
   ex_race_rejected = irun ex_race_accepted [Write 0] \<and>
   (ex_request Accepted 101)\<lparr>acceptedAt := Some 101\<rparr>
     \<in> set (connections (store ex_race_accepted)) \<and>
   (ex_request Rejected 102)\<lparr>acceptedAt := Some 101\<rparr>
     \<in> set (connections (store ex_race_rejected)) \<and>
   status ((ex_request Rejected 102)\<lparr>acceptedAt := Some 101\<rparr>) \<noteq> Pending"
proof -
  have h1: "connections ex_state = []" by (simp add: ex_state_def)
  have h2: "ex_pending = run ex_state [ReqRequestConnection 100 True ex_student 2 None]"
    by (rule ex_pending_run)
  have h3: "ex_rejected = run ex_pending [ReqRejectConnection 101 ex_imaam 10]"
    by (simp add: run_def ex_rejected_def)
  have h4: "ex_request Pending 100 \<in> set (connections ex_pending)"
    by (simp add: ex_pending_val)
  have h5: "ex_request Rejected 101 \<in> set (connections ex_rejected)"
    by (simp add: ex_rejected_val)
  have h6: "c_id (ex_request Rejected 101) = c_id (ex_request Pending 100)"
    by (simp add: ex_request_def)
  have "irun (start ex_state) (one_at_a_time [ReqRequestConnection 100 True ex_student 2 None])
      = start ex_pending"
    using run_one_at_a_time [OF store_ok_empty [OF h1],
        of "[ReqRequestConnection 100 True ex_student 2 None]"] h2
    by (simp add: start_def)
  then have g2: "ex_race_accepted = irun (start ex_state)
     (one_at_a_time [ReqRequestConnection 100 True ex_student 2 None] @
      [Lookup (ReqAcceptConnection 101 True ex_imaam 10),
       Lookup (ReqRejectConnection 102 ex_imaam 10), Write 0])"
    by (simp add: irun_append ex_race_accepted_def)
  have g3: "ex_race_rejected = irun ex_race_accepted [Write 0]"
    by (simp add: irun_def ex_race_rejected_def)
  have g4: "(ex_request Accepted 101)\<lparr>acceptedAt := Some 101\<rparr>
      \<in> set (connections (store ex_race_accepted))"
    by (simp add: ex_race_accepted_val)
  have g5: "(ex_request Rejected 102)\<lparr>acceptedAt := Some 101\<rparr>
      \<in> set (connections (store ex_race_rejected))"
    by (simp add: ex_race_rejected_val)
  have g6: "c_id ((ex_request Rejected 102)\<lparr>acceptedAt := Some 101\<rparr>)
      = c_id ((ex_request Accepted 101)\<lparr>acceptedAt := Some 101\<rparr>)"
    by (simp add: ex_request_def)
  have g7: "status ((ex_request Accepted 101)\<lparr>acceptedAt := Some 101\<rparr>) = Accepted"
    by (simp add: ex_request_def)
  note t = C6_status_transitions [of ex_state ex_pending
      "[ReqRequestConnection 100 True ex_student 2 None]" ex_rejected
      "[ReqRejectConnection 101 ex_imaam 10]" "ex_request Pending 100"
      "ex_request Rejected 101" ex_state ex_race_accepted
      "one_at_a_time [ReqRequestConnection 100 True ex_student 2 None] @
        [Lookup (ReqAcceptConnection 101 True ex_imaam 10),
         Lookup (ReqRejectConnection 102 ex_imaam 10), Write 0]"
      ex_race_rejected "[Write 0]"
      "(ex_request Accepted 101)\<lparr>acceptedAt := Some 101\<rparr>"
      "(ex_request Rejected 102)\<lparr>acceptedAt := Some 101\<rparr>"]
  have a: "status (ex_request Rejected 101) = status (ex_request Pending 100) \<or>
    (status (ex_request Pending 100) = Pending \<and>
     (status (ex_request Rejected 101) = Accepted \<or>
      status (ex_request Rejected 101) = Rejected))"
    using conjunct1 [OF t] h1 h2 h3 h4 h5 h6 by blast
  have b: "status ((ex_request Rejected 102)\<lparr>acceptedAt := Some 101\<rparr>) \<noteq> Pending"
    using conjunct2 [OF t] h1 g2 g3 g4 g5 g6 g7 by blast
  show ?thesis
    by (intro conjI h1 h2 h3 h4 h5 h6 a g2 g3 g4 g5 b)
qed

section \<open>The guard of acceptConnection\<close>

lemma findPendingFor_None_iff:
  "findPendingFor cs cid uid = None \<longleftrightarrow>
     \<not> (\<exists>c\<in>set cs. c_id c = cid \<and> recipient c = uid \<and> status c = Pending)"
  by (simp add: findPendingFor_def find_None_iff2)

lemma acceptConnection_NotFound:
  "findPendingFor (connections s) cid (u_id u) = None \<Longrightarrow>
     acceptConnection s now ok u cid = (s, Inl (AppError 404 ''Connection request not found''))"
  by (simp add: acceptConnection_def)

lemma accept_passes:
  "requester c \<noteq> recipient c \<Longrightarrow> \<exists>s1 c'. accept s now c = Inr (s1, c')"
  by (simp add: accept_def Let_def Connection_save_def connection_pre_save_def)

lemma acceptConnection_found:
  assumes "findPendingFor (connections s) cid (u_id u) = Some c"
    and "requester c \<noteq> recipient c"
  shows "snd (acceptConnection s now ok u cid) \<noteq> Inl (AppError 404 msg)"
proof -
  from accept_passes [OF assms(2)] obtain s1 c' where a: "accept s now c = Inr (s1, c')"
    by blast
  show ?thesis
  proof (cases "createNotification s1 now ok (connectionAcceptedData u c')")
    case (Inl e)
    then have "e \<noteq> AppError 404 msg"
      using createNotification_not_AppError [of s1 now ok _ 404 msg] by auto
    with assms(1) a Inl show ?thesis
      by (simp add: acceptConnection_def Let_def inc_connectionsCount_dropped)
  next
    case (Inr p)
    with assms(1) a show ?thesis
      by (cases p) (simp add: acceptConnection_def Let_def inc_connectionsCount_dropped)
  qed
qed

lemma getField_data: "getField ''data'' (okBody msg (Some v)) = Some v"
  by (simp add: getField_def okBody_def)

lemma accept_after:
  assumes "acceptConnection s now ok u cid = (s1, Inr resp)"
  shows "findPendingFor (connections s1) cid v = None"
    and "\<exists>c. getField ''data'' (body resp) = Some (VConn c) \<and> c_id c = cid \<and> status c = Accepted"
proof -
  from acceptConnection_Inr [OF assms] obtain c t c' n
    where f: "findPendingFor (connections s) cid (u_id u) = Some c"
      and a: "accept s now c = Inr (t, c')"
      and n: "createNotification t now ok (connectionAcceptedData u c') = Inr (s1, n)"
      and r: "resp = \<lparr>code = 200, body = okBody ''Connection request accepted successfully''
                                    (Some (VConn c'))\<rparr>"
    by blast
  have cid: "c_id c = cid" using findPendingFor_SomeD [OF f] by simp
  note e = accept_Inr [OF a]
  have c': "c_id c' = cid" "status c' = Accepted" using e(1) cid by simp_all
  have cs: "connections s1 = map (\<lambda>d. if c_id d = c_id c then c' else d) (connections s)"
    using createNotification_Inr(1) [OF n] e(2) by simp
  have "\<forall>d\<in>set (connections s1). c_id d = cid \<longrightarrow> status d = Accepted"
    using cs c' cid by auto
  then show "findPendingFor (connections s1) cid v = None"
    by (auto simp: findPendingFor_None_iff)
  show "\<exists>c. getField ''data'' (body resp) = Some (VConn c) \<and> c_id c = cid \<and> status c = Accepted"
    using r c' by (simp add: getField_data)
qed

text \<open>
  C4: in every state reached from an empty collection, \<open>acceptConnection\<close> answers 404
  exactly when no stored document has the given \<open>_id\<close>, the acting user as recipient and
  the status pending. When an accept succeeds, it returns the document with status
  accepted and any further accept of the same \<open>_id\<close>, by anyone, answers 404 and changes
  nothing; and the requester of a document who tries to accept it gets 404.
\<close>

theorem C4_accept_guard:
  assumes "connections s0 = []" and "s = run s0 rs"
  shows "(snd (acceptConnection s now ok u cid)
            = Inl (AppError 404 ''Connection request not found'') \<longleftrightarrow>
          \<not> (\<exists>c\<in>set (connections s). c_id c = cid \<and> recipient c = u_id u \<and> status c = Pending)) \<and>
         (\<forall>s1 resp. acceptConnection s now ok u cid = (s1, Inr resp) \<longrightarrow>
            (\<exists>c. getField ''data'' (body resp) = Some (VConn c) \<and> c_id c = cid \<and>
                 status c = Accepted) \<and>
            (\<forall>now' ok' v. acceptConnection s1 now' ok' v cid
               = (s1, Inl (AppError 404 ''Connection request not found'')))) \<and>
         (\<forall>c\<in>set (connections s). c_id c = cid \<and> requester c = u_id u \<longrightarrow>
            acceptConnection s now ok u cid
              = (s, Inl (AppError 404 ''Connection request not found'')))"
proof (intro conjI allI impI ballI)
  have ok: "ledger_ok s" using assms by (simp add: run_ok ledger_ok_empty)
  show "snd (acceptConnection s now ok u cid)
            = Inl (AppError 404 ''Connection request not found'') \<longleftrightarrow>
          \<not> (\<exists>c\<in>set (connections s). c_id c = cid \<and> recipient c = u_id u \<and> status c = Pending)"
  proof (cases "findPendingFor (connections s) cid (u_id u)")
    case None
    with acceptConnection_NotFound [OF None] show ?thesis
      by (simp add: findPendingFor_None_iff)
  next
    case (Some c)
    then have "c \<in> set (connections s)" using findPendingFor_SomeD by blast
    then have "requester c \<noteq> recipient c" using ok by (simp add: ledger_ok_def)
    from acceptConnection_found [OF Some this] Some show ?thesis
      using findPendingFor_None_iff [of "connections s" cid "u_id u"] by simp
  qed
next
  fix s1 resp
  assume a: "acceptConnection s now ok u cid = (s1, Inr resp)"
  show "\<exists>c. getField ''data'' (body resp) = Some (VConn c) \<and> c_id c = cid \<and> status c = Accepted"
    by (rule accept_after(2) [OF a])
  fix now' ok' v
  show "acceptConnection s1 now' ok' v cid
          = (s1, Inl (AppError 404 ''Connection request not found''))"
    by (rule acceptConnection_NotFound [OF accept_after(1) [OF a]])
next
  fix c
  assume c: "c \<in> set (connections s)" and q: "c_id c = cid \<and> requester c = u_id u"
  have ok: "ledger_ok s" using assms by (simp add: run_ok ledger_ok_empty)
  then have ids: "distinct (map c_id (connections s))"
    and noself: "requester c \<noteq> recipient c"
    using c by (simp_all add: ledger_ok_def)
  have "findPendingFor (connections s) cid (u_id u) = None"
  proof (cases "findPendingFor (connections s) cid (u_id u)")
    case None
    then show ?thesis .
  next
    case (Some d)
    from findPendingFor_SomeD [OF Some]
    have d: "d \<in> set (connections s)" "c_id d = cid" "recipient d = u_id u" by simp_all
    have "d = c" using ids d(1,2) c q by (auto dest: distinct_map_eqD)
    with d(3) q noself show ?thesis by simp
  qed
  then show "acceptConnection s now ok u cid
          = (s, Inl (AppError 404 ''Connection request not found''))"
    by (rule acceptConnection_NotFound)
qed

theorem C4_accept_guard_witness:
  "connections ex_state = [] \<and>
   ex_pending = run ex_state [ReqRequestConnection 100 True ex_student 2 None] \<and>
   acceptConnection ex_pending 101 True ex_student 10
     = (ex_pending, Inl (AppError 404 ''Connection request not found'')) \<and>
   snd (acceptConnection ex_pending 101 True ex_imaam 99)
     = Inl (AppError 404 ''Connection request not found'') \<and>
   responseCode (snd (acceptConnection ex_pending 101 True ex_imaam 10)) = Some 200 \<and>
   snd (acceptConnection (fst (acceptConnection ex_pending 101 True ex_imaam 10))
          102 True ex_imaam 10)
     = Inl (AppError 404 ''Connection request not found'')"
proof -
  have h1: "connections ex_state = []" by (simp add: ex_state_def)
  have h2: "ex_pending = run ex_state [ReqRequestConnection 100 True ex_student 2 None]"
    by (simp add: run_def ex_pending_def)
  have own: "ex_request Pending 100 \<in> set (connections ex_pending)"
    "c_id (ex_request Pending 100) = 10 \<and> requester (ex_request Pending 100) = u_id ex_student"
    by (simp_all add: ex_pending_val ex_request_def ex_student_def)
  have none: "\<not> (\<exists>c\<in>set (connections ex_pending).
      c_id c = 99 \<and> recipient c = u_id ex_imaam \<and> status c = Pending)"
    by (simp add: ex_pending_val ex_request_def)
  obtain s1 r1 where a: "acceptConnection ex_pending 101 True ex_imaam 10 = (s1, Inr r1)"
    "code r1 = 200"
    by (simp add: ex_pending_val example_defs model_defs)
  have "acceptConnection ex_pending 101 True ex_student 10
     = (ex_pending, Inl (AppError 404 ''Connection request not found''))"
    using C4_accept_guard [OF h1 h2, of 101 True ex_student 10] own by blast
  moreover have "snd (acceptConnection ex_pending 101 True ex_imaam 99)
     = Inl (AppError 404 ''Connection request not found'')"
    using C4_accept_guard [OF h1 h2, of 101 True ex_imaam 99] none by blast
  moreover have "acceptConnection s1 102 True ex_imaam 10
     = (s1, Inl (AppError 404 ''Connection request not found''))"
    using C4_accept_guard [OF h1 h2, of 101 True ex_imaam 10] a(1) by blast
  ultimately show ?thesis
    using h1 h2 a by (simp add: responseCode_def)
qed

section \<open>Unfollow, and following again\<close>

lemma Connection_create_peer:
  "a \<noteq> b \<Longrightarrow>
   Connection_create s now a b Peer None Pending =
     (if find (\<lambda>d. requester d = a \<and> recipient d = b) (connections s) \<noteq> None
        then Inl DuplicateKeyError
      else Inr (s\<lparr>connections := connections s @
                    [\<lparr>c_id = nextId s, requester = a, recipient = b, status = Pending,
                      ctype = Peer, message = None, acceptedAt = None,
                      lastInteraction = now, createdAt = now\<rparr>],
                  nextId := nextId s + 1\<rparr>,
                \<lparr>c_id = nextId s, requester = a, recipient = b, status = Pending,
                      ctype = Peer, message = None, acceptedAt = None,
                      lastInteraction = now, createdAt = now\<rparr>))"
  by (simp add: Connection_create_def Let_def connection_validate_def connection_pre_save_def
      connection_post_save_id)

lemma followUser_success_iff:
  assumes "u_id u \<noteq> t"
  shows "(\<exists>s2 r. followUser s now u t = (s2, Inr r)) \<longleftrightarrow>
         ((\<exists>tu. users s t = Some tu \<and> isActive tu) \<and>
          existingConnectionError ''Already following this user''
            (find (samePair (u_id u) t) (connections s)) = None \<and>
          find (\<lambda>d. requester d = u_id u \<and> recipient d = t) (connections s) = None)"
proof (cases "users s t")
  case None
  with assms show ?thesis by (simp add: followUser_def)
next
  case (Some tu)
  show ?thesis
  proof (cases "isActive tu")
    case False
    with Some assms show ?thesis by (simp add: followUser_def)
  next
    case True
    have ne: "t \<noteq> u_id u" using assms(1) by simp
    show ?thesis
    proof (cases "existingConnectionError ''Already following this user''
                    (find (samePair (u_id u) t) (connections s))")
      case (Some e)
      with \<open>users s t = Some tu\<close> True ne show ?thesis by (simp add: followUser_def)
    next
      case g: None
      show ?thesis
      proof (cases "find (\<lambda>d. requester d = u_id u \<and> recipient d = t) (connections s)")
        case None
        with Some True g ne show ?thesis
          by (simp add: followUser_def Let_def Connection_create_peer [OF assms(1)])
      next
        case (Some d)
        with \<open>users s t = Some tu\<close> True g ne show ?thesis
          by (simp add: followUser_def Let_def Connection_create_peer [OF assms(1)])
      qed
    qed
  qed
qed

lemma not_live_status: "\<not> live d \<Longrightarrow> status d = Rejected \<or> status d = Blocked"
  by (cases "status d") (simp_all add: live_def)

lemma unfollowUser_NotFound_iff:
  "snd (unfollowUser s u t) = Inl (AppError 404 ''Not following this user'') \<longleftrightarrow>
   \<not> (\<exists>c\<in>set (connections s). samePair (u_id u) t c \<and> status c = Accepted)"
proof (cases "unfollowUser s u t")
  case (Pair s' r)
  from unfollowUser_cases [OF Pair] show ?thesis
  proof (elim disjE exE conjE)
    assume "find (\<lambda>c. samePair (u_id u) t c \<and> status c = Accepted) (connections s) = None"
      and "r = Inl (AppError 404 ''Not following this user'')"
    with Pair show ?thesis by (simp add: find_None_iff2)
  next
    fix c
    assume f: "find (\<lambda>c. samePair (u_id u) t c \<and> status c = Accepted) (connections s) = Some c"
      and r: "r = Inr \<lparr>code = 200, body = okBody ''Unfollowed successfully'' None\<rparr>"
    from find_SomeD [OF f] Pair r show ?thesis by auto
  qed
qed

lemma ex_connected_run:
  "ex_connected = run ex_state [ReqFollowUser 100 ex_imaam2 2,
                                ReqRejectConnection 101 ex_imaam 10,
                                ReqFollowUser 102 ex_imaam 3,
                                ReqAcceptConnection 103 True ex_imaam2 11]"
  by (simp add: run_def ex_connected_def ex_returned_def ex_declined_def ex_asked_def)

text \<open>
  C7, as stated, fails: imaam 3 followed imaam 2 and was rejected, then 2 followed 3 and
  3 accepted. Now 3 unfollows 2: the answer is 200 and the accepted document is deleted.
  The follow of 2 by 3 that comes next does not succeed: the rejected document from 3 to
  2 is still stored, it passes the lookup, and the unique index refuses the insert. (The
  unfollow also leaves \<open>connectionsCount\<close> of user 2 at 5.)
\<close>

theorem C7_follow_after_unfollow_counterexample:
  "ex_connected = run ex_state [ReqFollowUser 100 ex_imaam2 2,
                                ReqRejectConnection 101 ex_imaam 10,
                                ReqFollowUser 102 ex_imaam 3,
                                ReqAcceptConnection 103 True ex_imaam2 11] \<and>
   map pairKey (connections ex_connected) = [(3, 2), (2, 3)] \<and>
   map status (connections ex_connected) = [Rejected, Accepted] \<and>
   responseCode (snd (unfollowUser ex_connected ex_imaam2 2)) = Some 200 \<and>
   fst (unfollowUser ex_connected ex_imaam2 2) = ex_unfollowed \<and>
   map status (connections ex_unfollowed) = [Rejected] \<and>
   snd (followUser ex_unfollowed 104 ex_imaam2 2) = Inl DuplicateKeyError \<and>
   map_option connectionsCount (users ex_connected 2) = Some (Some 5) \<and>
   map_option connectionsCount (users ex_unfollowed 2) = Some (Some 5)"
proof -
  have "map pairKey (connections ex_connected) = [(3, 2), (2, 3)] \<and>
   map status (connections ex_connected) = [Rejected, Accepted] \<and>
   responseCode (snd (unfollowUser ex_connected ex_imaam2 2)) = Some 200 \<and>
   fst (unfollowUser ex_connected ex_imaam2 2) = ex_unfollowed \<and>
   map status (connections ex_unfollowed) = [Rejected] \<and>
   snd (followUser ex_unfollowed 104 ex_imaam2 2) = Inl DuplicateKeyError \<and>
   map_option connectionsCount (users ex_connected 2) = Some (Some 5) \<and>
   map_option connectionsCount (users ex_unfollowed 2) = Some (Some 5)"
    by (simp add: ex_connected_val ex_unfollowed_val responseCode_def pairKey_def
        example_defs model_defs)
  then show ?thesis by (rule conjI [OF ex_connected_run])
qed

text \<open>
  C7, amended: in every state reached from an empty collection, in whatever order the
  lookups and the writes of the requests interleave, \<open>unfollowUser\<close> answers 404 exactly
  when no accepted document exists for the pair, in either direction. When it succeeds it
  deletes one accepted document of the pair and leaves the notifications untouched. A
  follow of the same target by the same user that is handled next succeeds exactly when
  the target is an active user, the document the lookup finds for the pair, if any, is
  neither pending nor accepted, and no document from the user to the target is left; it
  then appends a pending document. Nothing is said here of the counters.
\<close>

theorem C7_unfollow:
  assumes "connections s0 = []" and "s = store (irun (start s0) es)"
  shows "(snd (unfollowUser s u t) = Inl (AppError 404 ''Not following this user'') \<longleftrightarrow>
          \<not> (\<exists>c\<in>set (connections s). samePair (u_id u) t c \<and> status c = Accepted)) \<and>
         (\<forall>s1 resp. unfollowUser s u t = (s1, Inr resp) \<longrightarrow>
            (\<exists>c\<in>set (connections s). samePair (u_id u) t c \<and> status c = Accepted \<and>
               connections s1 = remove1 c (connections s) \<and> c \<notin> set (connections s1)) \<and>
            notifications s1 = notifications s \<and>
            (\<forall>now. (\<exists>s2 resp2. followUser s1 now u t = (s2, Inr resp2)) \<longleftrightarrow>
               ((\<exists>tu. users s1 t = Some tu \<and> isActive tu) \<and>
                (\<forall>e. find (samePair (u_id u) t) (connections s1) = Some e \<longrightarrow>
                   status e \<noteq> Accepted \<and> status e \<noteq> Pending) \<and>
                \<not> (\<exists>d\<in>set (connections s1). requester d = u_id u \<and> recipient d = t))) \<and>
            (\<forall>now s2 resp2. followUser s1 now u t = (s2, Inr resp2) \<longrightarrow>
               (\<exists>c. connections s2 = connections s1 @ [c] \<and> status c = Pending \<and>
                    requester c = u_id u \<and> recipient c = t)))"
proof (intro conjI allI impI)
  show "snd (unfollowUser s u t) = Inl (AppError 404 ''Not following this user'') \<longleftrightarrow>
          \<not> (\<exists>c\<in>set (connections s). samePair (u_id u) t c \<and> status c = Accepted)"
    by (rule unfollowUser_NotFound_iff)
next
  fix s1 resp
  assume un: "unfollowUser s u t = (s1, Inr resp)"
  have "store_ok (store (start s0))" using assms(1) by (simp add: start_def store_ok_empty)
  then have ok: "store_ok s" using assms(2) by (simp add: irun_ok)
  let ?cs = "connections s"
  have ids: "distinct (map c_id ?cs)"
    and noself: "\<forall>d\<in>set ?cs. requester d \<noteq> recipient d"
    using ok by (simp_all add: store_ok_def)
  from unfollowUser_cases [OF un] obtain c
    where f: "find (\<lambda>c. samePair (u_id u) t c \<and> status c = Accepted) ?cs = Some c"
      and s1: "s1 = s\<lparr>connections := remove1 c ?cs, users := users s\<rparr>"
    by auto
  from find_SomeD [OF f] have c: "c \<in> set ?cs" "samePair (u_id u) t c" "status c = Accepted"
    by simp_all
  have cs1: "connections s1 = remove1 c ?cs" using s1 by simp
  have dist: "distinct ?cs" using ids by (simp add: distinct_map)
  have gone: "c \<notin> set (connections s1)" using dist cs1 by simp
  show "\<exists>c\<in>set ?cs. samePair (u_id u) t c \<and> status c = Accepted \<and>
               connections s1 = remove1 c ?cs \<and> c \<notin> set (connections s1)"
    using c cs1 gone by blast
  show "notifications s1 = notifications s" using s1 by simp
  have ne: "u_id u \<noteq> t"
    using c(1,2) noself unfolding samePair_def by auto
  show "(\<exists>s2 resp2. followUser s1 now u t = (s2, Inr resp2)) \<longleftrightarrow>
               ((\<exists>tu. users s1 t = Some tu \<and> isActive tu) \<and>
                (\<forall>e. find (samePair (u_id u) t) (connections s1) = Some e \<longrightarrow>
                   status e \<noteq> Accepted \<and> status e \<noteq> Pending) \<and>
                \<not> (\<exists>d\<in>set (connections s1). requester d = u_id u \<and> recipient d = t))"
    for now
    using followUser_success_iff [OF ne, of s1 now]
    by (simp add: find_None_iff2 existingConnectionError_None)
  show "\<exists>c. connections s2 = connections s1 @ [c] \<and> status c = Pending \<and>
                    requester c = u_id u \<and> recipient c = t"
    if fo: "followUser s1 now u t = (s2, Inr resp2)" for now s2 resp2
  proof -
    from followUser_Inr(1) [OF fo] obtain c2
      where "Connection_create s1 now (u_id u) t Peer None Pending = Inr (s2, c2)" by blast
    from Connection_create_Inr [OF this] show ?thesis by blast
  qed
qed

theorem C7_unfollow_witness:
  "connections ex_state = [] \<and>
   ex_peers = store (irun (start ex_state)
     (one_at_a_time [ReqFollowUser 100 ex_imaam 3,
                     ReqAcceptConnection 101 True ex_imaam2 10])) \<and>
   ex_state = store (irun (start ex_state) []) \<and>
   snd (unfollowUser ex_state ex_imaam2 2) = Inl (AppError 404 ''Not following this user'') \<and>
   responseCode (snd (unfollowUser ex_peers ex_imaam2 2)) = Some 200 \<and>
   connections (fst (unfollowUser ex_peers ex_imaam2 2)) = [] \<and>
   (\<exists>s2 resp2. followUser (fst (unfollowUser ex_peers ex_imaam2 2)) 103 ex_imaam2 2
                 = (s2, Inr resp2))"
proof -
  have h1: "connections ex_state = []" by (simp add: ex_state_def)
  have h0: "ex_state = store (irun (start ex_state) [])" by (simp add: irun_def start_def)
  have "ex_peers = run ex_state [ReqFollowUser 100 ex_imaam 3,
                                 ReqAcceptConnection 101 True ex_imaam2 10]"
    by (simp add: run_def ex_peers_def ex_followed_def)
  then have h2: "ex_peers = store (irun (start ex_state)
     (one_at_a_time [ReqFollowUser 100 ex_imaam 3,
                     ReqAcceptConnection 101 True ex_imaam2 10]))"
    using run_one_at_a_time [OF store_ok_empty [OF h1],
        of "[ReqFollowUser 100 ex_imaam 3, ReqAcceptConnection 101 True ex_imaam2 10]"]
    by (simp add: start_def)
  obtain s1 r1 where un: "unfollowUser ex_peers ex_imaam2 2 = (s1, Inr r1)"
    and r1: "code r1 = 200"
    and s1: "connections s1 = []" "users s1 2 = Some ex_imaam"
    by (simp add: ex_peers_val example_defs model_defs)
  have "snd (unfollowUser ex_state ex_imaam2 2)
          = Inl (AppError 404 ''Not following this user'')"
    using C7_unfollow [OF h1 h0, of ex_imaam2 2] h1 by simp
  moreover have "\<exists>s2 resp2. followUser s1 103 ex_imaam2 2 = (s2, Inr resp2)"
  proof -
    have "(\<exists>tu. users s1 2 = Some tu \<and> isActive tu) \<and>
          (\<forall>e. find (samePair (u_id ex_imaam2) 2) (connections s1) = Some e \<longrightarrow>
                   status e \<noteq> Accepted \<and> status e \<noteq> Pending) \<and>
          \<not> (\<exists>d\<in>set (connections s1). requester d = u_id ex_imaam2 \<and> recipient d = 2)"
      using s1 by (simp add: ex_imaam_def)
    with C7_unfollow [OF h1 h2, of ex_imaam2 2] un show ?thesis by blast
  qed
  ultimately show ?thesis
    using un r1 s1 by (intro conjI h1 h2 h0) (simp_all add: responseCode_def)
qed

end
